theory Spec2Isabelle
  imports Complex_Main "HOL-Library.AList"
begin

section \<open>The CIFAR training script \<open>cifar.py\<close>\<close>

text \<open>
  The script is read as Python 3 (\<open>/\<close> is true division, \<open>//\<close> floor division:
  \<open>per = 1/num_print*100\<close> at line 300 is only meaningful that way). Python floats are
  modelled as real numbers: no rounding, overflow or underflow. The entries of float
  tensors are real numbers, infinities or NaN; of the single-precision arithmetic of
  tensors the range is modelled (a magnitude too small becomes zero, one too large an
  infinity), the rounding inside the range is not. What a division by zero produces is
  explicit: Python raises \<open>ZeroDivisionError\<close>, a tensor division yields an infinity
  or a NaN.
  Wall-clock time (\<open>time.time()\<close>, the \<open>batch_time\<close> and \<open>data_time\<close> meters) and the
  transfer to the GPU have no effect on any result and are left out.
\<close>

subsection \<open>Errors and Python arithmetic\<close>

datatype py_error =
    ZeroDivisionError | TypeError | ValueError | KeyError | RuntimeError | AssertionError

text \<open>Sequencing of steps that may raise: the first error wins.\<close>

definition and_then :: "'e + 'a \<Rightarrow> ('a \<Rightarrow> 'e + 'b) \<Rightarrow> 'e + 'b" where
  "and_then r f = (case r of Inl e \<Rightarrow> Inl e | Inr v \<Rightarrow> f v)"

text \<open>A list comprehension whose elements may raise, evaluated left to right.\<close>

fun collect :: "('e + 'a) list \<Rightarrow> 'e + 'a list" where
  "collect [] = Inr []"
| "collect (r # rs) =
     (case r of Inl e \<Rightarrow> Inl e
      | Inr v \<Rightarrow> (case collect rs of Inl e \<Rightarrow> Inl e | Inr vs \<Rightarrow> Inr (v # vs)))"

text \<open>\<open>a / b\<close> on Python numbers.\<close>

definition py_truediv :: "real \<Rightarrow> real \<Rightarrow> py_error + real" where
  "py_truediv a b = (if b = 0 then Inl ZeroDivisionError else Inr (a / b))"

text \<open>
  \<open>b ** e\<close> on Python floats. A zero base raises for a negative exponent and
  \<open>0.0 ** 0.0\<close> is \<open>1.0\<close>; a negative base with an exponent that is not a whole number
  gives a complex number, on which the \<open>max\<close>, \<open>float\<close> or \<open>torch.FloatTensor\<close> that
  follows in this script raises \<open>TypeError\<close> before anything else is observable, so
  the error is placed here.
\<close>

definition py_pow :: "real \<Rightarrow> real \<Rightarrow> py_error + real" where
  "py_pow b e =
     (if 0 < b then Inr (b powr e)
      else if b = 0 then
        (if 0 < e then Inr 0 else if e = 0 then Inr 1 else Inl ZeroDivisionError)
      else if e = of_int \<lfloor>e\<rfloor> then Inr (b powi \<lfloor>e\<rfloor>)
      else Inl TypeError)"

text \<open>\<open>max(xs)\<close>: the first largest element; \<open>ValueError\<close> on the empty list.\<close>

fun py_max :: "real list \<Rightarrow> py_error + real" where
  "py_max [] = Inl ValueError"
| "py_max (x # xs) = Inr (foldl (\<lambda>m y. if m < y then y else m) x xs)"

subsection \<open>Tensors and their storage\<close>

text \<open>
  An entry of a float tensor: a finite number, an infinity or a NaN (signed zeros are
  not told apart; a zero divisor counts as \<open>+0.0\<close>).
\<close>

datatype tval = Fin real | PInf | NInf | NaN

text \<open>
  An entry divided by a finite number: the exact quotient, with the infinities and NaN
  of a division by zero.
\<close>

fun tdiv :: "tval \<Rightarrow> real \<Rightarrow> tval" where
  "tdiv (Fin x) s =
     (if s \<noteq> 0 then Fin (x / s) else if 0 < x then PInf else if x < 0 then NInf else NaN)"
| "tdiv PInf s = (if 0 \<le> s then PInf else NInf)"
| "tdiv NInf s = (if 0 \<le> s then NInf else PInf)"
| "tdiv NaN s = NaN"


text \<open>A two-dimensional tensor, row by row; its shape is the list of its row lengths.\<close>

type_synonym tensor = "tval list list"

definition shape :: "tensor \<Rightarrow> nat list" where
  "shape t = map length t"

text \<open>
  The quotient \<open>W / ns\<close> for \<open>ns\<close> of shape \<open>(C, 1)\<close>, in exact arithmetic: row \<open>i\<close>
  of \<open>W\<close> is divided entry by entry by \<open>ns[i]\<close>. When the row counts differ, a single
  row or a single factor is broadcast; any other mismatch raises.
\<close>

definition div_rows :: "tensor \<Rightarrow> real list \<Rightarrow> py_error + tensor" where
  "div_rows W ns =
     (if length W = length ns then Inr (map2 (\<lambda>row s. map (\<lambda>w. tdiv w s) row) W ns)
      else if length W = 1 then Inr (map (\<lambda>s. map (\<lambda>w. tdiv w s) (hd W)) ns)
      else if length ns = 1 then Inr (map (map (\<lambda>w. tdiv w (hd ns))) W)
      else Inl RuntimeError)"

text \<open>
  The range of single precision, with rounding to nearest: a number of magnitude at most
  \<open>2^-150\<close>, half the smallest positive value, becomes zero, and one of magnitude at
  least \<open>(2 - 2^-24) * 2^127\<close>, half a step beyond the largest finite value, becomes an
  infinity. \<open>f32\<close> is the conversion of a number into a tensor entry, as
  \<open>torch.FloatTensor\<close> and every tensor operation perform it.
\<close>

definition f32_tiny :: real where
  "f32_tiny = 1 / 2 ^ 150"

definition f32_huge :: real where
  "f32_huge = (2 - 1 / 2 ^ 24) * 2 ^ 127"

definition f32 :: "real \<Rightarrow> tval" where
  "f32 x =
     (if \<bar>x\<bar> \<le> f32_tiny then Fin 0
      else if f32_huge \<le> \<bar>x\<bar> then (if 0 < x then PInf else NInf)
      else Fin x)"

fun clip32 :: "tval \<Rightarrow> tval" where
  "clip32 (Fin x) = f32 x"
| "clip32 v = v"

text \<open>
  The division of two tensor entries: by a finite entry it is the exact quotient brought
  into the range; a finite entry divided by an infinity is zero; an infinity divided by
  an infinity, and anything with a NaN, is NaN.
\<close>

fun tdiv32 :: "tval \<Rightarrow> tval \<Rightarrow> tval" where
  "tdiv32 w (Fin s) = clip32 (tdiv w s)"
| "tdiv32 (Fin x) PInf = Fin 0"
| "tdiv32 (Fin x) NInf = Fin 0"
| "tdiv32 w s = NaN"

text \<open>
  \<open>W / ns\<close> at line 245, on tensors: \<open>ns\<close> is the tensor of shape \<open>(C, 1)\<close> of line
  244; the broadcasting is that of \<open>div_rows\<close>.
\<close>

definition div_rows32 :: "tensor \<Rightarrow> tval list \<Rightarrow> py_error + tensor" where
  "div_rows32 W ns =
     (if length W = length ns then Inr (map2 (\<lambda>row s. map (\<lambda>w. tdiv32 w s) row) W ns)
      else if length W = 1 then Inr (map (\<lambda>s. map (\<lambda>w. tdiv32 w s) (hd W)) ns)
      else if length ns = 1 then Inr (map (map (\<lambda>w. tdiv32 w (hd ns))) W)
      else Inl RuntimeError)"

text \<open>
  The network and the tensor storage it lives in. Tensors are mutable objects, so they
  are kept in a store by address; \<open>named\<close> is the module's table of parameters and
  buffers, each name with the address of its tensor.
\<close>

record net =
  cells :: "nat \<Rightarrow> tensor"
  next_addr :: nat
  named :: "(string \<times> nat) list"
  training :: bool

text \<open>A new tensor object, as an arithmetic expression or \<open>torch.load\<close> creates one.\<close>

definition alloc :: "tensor \<Rightarrow> net \<Rightarrow> nat \<times> net" where
  "alloc t n = (next_addr n, n\<lparr>cells := (cells n)(next_addr n := t), next_addr := Suc (next_addr n)\<rparr>)"

text \<open>
  \<open>model.state_dict()\<close>: a new dictionary whose values are the module's own tensors
  (the same objects, not copies).
\<close>

definition state_dict :: "net \<Rightarrow> (string \<times> nat) list" where
  "state_dict n = named n"

text \<open>The contents of a state dictionary, as \<open>torch.save\<close> writes them to a file.\<close>

definition snapshot :: "net \<Rightarrow> (string \<times> nat) list \<Rightarrow> (string \<times> tensor) list" where
  "snapshot n sd = map (\<lambda>(name, a). (name, cells n a)) sd"

text \<open>
  \<open>model.load_state_dict(sd)\<close>: every entry of \<open>sd\<close> is copied, in order and in
  place, into the module's tensor of that name. An entry the module does not have, a
  tensor of another shape, and a name of the module missing from \<open>sd\<close> raise.
  The error carries the store as the copies made so far left it.
\<close>

fun copy_entries ::
  "(string \<times> nat) list \<Rightarrow> (string \<times> nat) list \<Rightarrow> (nat \<Rightarrow> tensor) \<Rightarrow>
     (py_error \<times> (nat \<Rightarrow> tensor)) + (nat \<Rightarrow> tensor)" where
  "copy_entries own [] c = Inr c"
| "copy_entries own ((name, src) # rest) c =
     (case map_of own name of
        None \<Rightarrow> Inl (KeyError, c)
      | Some dst \<Rightarrow>
          if shape (c src) = shape (c dst) then copy_entries own rest (c(dst := c src))
          else Inl (RuntimeError, c))"

definition load_state_dict :: "net \<Rightarrow> (string \<times> nat) list \<Rightarrow> (py_error \<times> net) + net" where
  "load_state_dict n sd =
     (case copy_entries (named n) sd (cells n) of
        Inl (e, c) \<Rightarrow> Inl (e, n\<lparr>cells := c\<rparr>)
      | Inr c \<Rightarrow>
          if list_all (\<lambda>name. name \<in> set (map fst sd)) (map fst (named n))
          then Inr (n\<lparr>cells := c\<rparr>)
          else Inl (KeyError, n\<lparr>cells := c\<rparr>))"

text \<open>\<open>torch.load\<close> of a saved state dictionary: its tensors become new objects.\<close>

fun torch_load :: "(string \<times> tensor) list \<Rightarrow> net \<Rightarrow> (string \<times> nat) list \<times> net" where
  "torch_load [] n = ([], n)"
| "torch_load ((name, t) # rest) n =
     (let (a, n1) = alloc t n; (sd, n2) = torch_load rest n1 in ((name, a) # sd, n2))"

subsection \<open>Metric accumulation\<close>

text \<open>
  Modelled from the spec: \<open>utils.AverageMeter\<close> is not among the sources. The spec's
  MetricAccumulator folds an observation, weighted by the batch size, into a running sum
  and count; its average is the sum over the count, and 0 when nothing was counted.
\<close>

record meter =
  msum :: real
  mcount :: nat

definition new_meter :: meter where
  "new_meter = \<lparr>msum = 0, mcount = 0\<rparr>"

definition update :: "meter \<Rightarrow> real \<Rightarrow> nat \<Rightarrow> meter" where
  "update m v w = \<lparr>msum = msum m + v * real w, mcount = mcount m + w\<rparr>"

definition avg :: "meter \<Rightarrow> real" where
  "avg m = (if mcount m = 0 then 0 else msum m / real (mcount m))"

subsection \<open>Optimizer, collaborators, output\<close>

text \<open>
  A parameter group of the optimizer: its learning rate and its other entries. The
  optimizer's own state (momentum buffers) is opaque.
\<close>

record 'g param_group =
  pg_lr :: real
  pg_other :: 'g

record ('g, 'o) optimizer =
  param_groups :: "'g param_group list"
  opt_state :: 'o

text \<open>What the script prints and logs, in order.\<close>

datatype event =
    Print_text string
  | Print_test string real real
  | Print_train int real real
  | Log_info int int real real real real real
  | Print_best real

text \<open>
  The collaborators the script calls but does not define. A batch is a list of inputs
  and the list of their targets, so \<open>inputs.size(0)\<close> is the length of the first.
  \<open>forward\<close> is \<open>model(inputs)\<close>, the logits as a function of the network (its
  tensors and its mode) and the inputs; \<open>accuracy\<close> gives \<open>prec1[0]\<close> and \<open>prec5[0]\<close>;
  \<open>sgd_step\<close> is \<open>optimizer.zero_grad(); loss.backward(); optimizer.step()\<close>, which
  changes tensors of the network and the optimizer's state in place. The training
  loader shuffles, so its batches depend on the epoch.
\<close>

record ('x, 'y, 'l, 'g, 'o) collab =
  forward :: "net \<Rightarrow> 'x list \<Rightarrow> 'l"
  criterion :: "'l \<Rightarrow> 'y list \<Rightarrow> real"
  accuracy :: "'l \<Rightarrow> 'y list \<Rightarrow> real \<times> real"
  sgd_step :: "('g, 'o) optimizer \<Rightarrow> net \<Rightarrow> 'x list \<Rightarrow> 'y list \<Rightarrow> net \<times> ('g, 'o) optimizer"
  trainloader :: "int \<Rightarrow> ('x list \<times> 'y list) list"
  testloader :: "('x list \<times> 'y list) list"

subsection \<open>\<open>train\<close> (lines 287 to 337)\<close>

record ('g, 'o) train_state =
  t_net :: net
  t_opt :: "('g, 'o) optimizer"
  t_losses :: meter
  t_top1 :: meter
  t_top5 :: meter
  t_out :: "event list"

text \<open>
  The loop over the batches, from batch index \<open>batch_idx\<close> on. \<open>(batch_idx+1) % denom\<close>
  raises when \<open>denom\<close> is 0; the error carries the state reached, in which the batch's
  optimizer step is already done.
\<close>

fun train_batches ::
  "('x, 'y, 'l, 'g, 'o) collab \<Rightarrow> int \<Rightarrow> nat \<Rightarrow> nat \<Rightarrow> ('x list \<times> 'y list) list \<Rightarrow>
     ('g, 'o) train_state \<Rightarrow> (py_error \<times> ('g, 'o) train_state) + ('g, 'o) train_state" where
  "train_batches P epoch denom batch_idx [] st = Inr st"
| "train_batches P epoch denom batch_idx ((inputs, targets) # rest) st =
     (let outputs = forward P (t_net st) inputs;
          loss = criterion P outputs targets;
          (prec1, prec5) = accuracy P outputs targets;
          (n', opt') = sgd_step P (t_opt st) (t_net st) inputs targets;
          st1 = st\<lparr>t_net := n', t_opt := opt',
                   t_losses := update (t_losses st) loss (length inputs),
                   t_top1 := update (t_top1 st) prec1 (length inputs),
                   t_top5 := update (t_top5 st) prec5 (length inputs)\<rparr>
      in if denom = 0 then Inl (ZeroDivisionError, st1)
         else
           let st2 =
             (if (batch_idx + 1) mod denom = 0
              then st1\<lparr>t_out := t_out st1 @
                     [Print_train epoch (1 / 13 * 100 * real (batch_idx div denom + 1)) loss]\<rparr>
              else st1)
           in train_batches P epoch denom (batch_idx + 1) rest st2)"

text \<open>
  \<open>train\<close>: the network is put in training mode, \<open>max_iter\<close> is the number of
  batches of the loader, \<open>denom = max_iter // num_print\<close> with \<open>num_print = 13\<close>.
  It returns \<open>(losses.avg, top1.avg)\<close> with the network, the optimizer and the
  lines printed.
\<close>

definition train ::
  "('x, 'y, 'l, 'g, 'o) collab \<Rightarrow> ('x list \<times> 'y list) list \<Rightarrow> net \<Rightarrow> ('g, 'o) optimizer \<Rightarrow> int \<Rightarrow>
     (py_error \<times> ('g, 'o) train_state) + ((real \<times> real) \<times> ('g, 'o) train_state)" where
  "train P loader n opt epoch =
     (let st0 = \<lparr>t_net = n\<lparr>training := True\<rparr>, t_opt = opt, t_losses = new_meter,
                 t_top1 = new_meter, t_top5 = new_meter, t_out = []\<rparr>;
          max_iter = length loader;
          num_print = 13;
          denom = max_iter div num_print
      in case train_batches P epoch denom 0 loader st0 of
           Inl err \<Rightarrow> Inl err
         | Inr st \<Rightarrow> Inr ((avg (t_losses st), avg (t_top1 st)), st))"

subsection \<open>\<open>test\<close> (lines 339 to 374)\<close>

fun test_batches ::
  "('x, 'y, 'l, 'g, 'o) collab \<Rightarrow> net \<Rightarrow> ('x list \<times> 'y list) list \<Rightarrow>
     meter \<times> meter \<times> meter \<Rightarrow> meter \<times> meter \<times> meter" where
  "test_batches P n [] ms = ms"
| "test_batches P n ((inputs, targets) # rest) (losses, top1, top5) =
     (let outputs = forward P n inputs;
          loss = criterion P outputs targets;
          (prec1, prec5) = accuracy P outputs targets
      in test_batches P n rest
           (update losses loss (length inputs), update top1 prec1 (length inputs),
            update top5 prec5 (length inputs)))"

text \<open>
  \<open>test\<close>: \<open>model.eval()\<close> clears the mode flag; the batches are then only run
  forward and measured. It returns \<open>(losses.avg, top1.avg)\<close> and the network.
\<close>

definition test ::
  "('x, 'y, 'l, 'g, 'o) collab \<Rightarrow> ('x list \<times> 'y list) list \<Rightarrow> net \<Rightarrow> (real \<times> real) \<times> net" where
  "test P loader n =
     (let n1 = n\<lparr>training := False\<rparr>;
          (losses, top1, top5) = test_batches P n1 loader (new_meter, new_meter, new_meter)
      in ((avg losses, avg top1), n1))"

subsection \<open>Command line, run state, checkpoint files\<close>

text \<open>The parsed command line, as far as the modelled code reads it.\<close>

record args =
  dataset :: string
  imbalance :: int
  epochs :: int
  start_epoch :: int
  lr :: real
  schedule :: "int list"
  gamma :: real
  checkpoint :: string
  resume :: string
  RS :: real
  evaluate :: bool

text \<open>The dictionary that \<open>main\<close> hands to \<open>save_checkpoint\<close>, as it is stored in a file.\<close>

record ('g, 'o) checkpoint_record =
  ck_epoch :: int
  ck_state_dict :: "(string \<times> tensor) list"
  ck_acc :: real
  ck_best_acc :: real
  ck_optimizer :: "('g, 'o) optimizer"

text \<open>
  The state of a run: the network and the optimizer, the globals \<open>state['lr']\<close> and
  \<open>best_acc\<close>, the checkpoint files by path, and the output so far.
\<close>

record ('g, 'o) run =
  r_net :: net
  r_opt :: "('g, 'o) optimizer"
  r_lr :: real
  r_best_acc :: real
  r_files :: "string \<rightharpoonup> ('g, 'o) checkpoint_record"
  r_out :: "event list"

text \<open>\<open>os.path.join(a, b)\<close> for a \<open>b\<close> that does not start with a slash.\<close>

definition path_join :: "string \<Rightarrow> string \<Rightarrow> string" where
  "path_join a b = (if a = [] \<or> last a = CHR ''/'' then a @ b else a @ ''/'' @ b)"

text \<open>\<open>os.path.dirname\<close>.\<close>

definition dirname :: "string \<Rightarrow> string" where
  "dirname p =
     (let head = rev (dropWhile (\<lambda>c. c \<noteq> CHR ''/'') (rev p))
      in if head \<noteq> [] \<and> \<not> list_all (\<lambda>c. c = CHR ''/'') head
         then rev (dropWhile (\<lambda>c. c = CHR ''/'') (rev head)) else head)"

text \<open>
  \<open>save_checkpoint\<close> (lines 376 to 382): the record is written to
  \<open>checkpoint.pth.tar\<close> in the directory, and that file is copied to
  \<open>model_best.pth.tar\<close> when \<open>is_best\<close> holds.
\<close>

definition save_checkpoint ::
  "('g, 'o) checkpoint_record \<Rightarrow> bool \<Rightarrow> string \<Rightarrow>
     (string \<rightharpoonup> ('g, 'o) checkpoint_record) \<Rightarrow> (string \<rightharpoonup> ('g, 'o) checkpoint_record)" where
  "save_checkpoint state is_best dir files =
     (let filepath = path_join dir ''checkpoint.pth.tar'';
          files1 = files(filepath \<mapsto> state)
      in if is_best
         then (let dst = path_join dir ''model_best.pth.tar'' in files1(dst := files1 filepath))
         else files1)"

text \<open>
  \<open>adjust_learning_rate\<close> (lines 383 to 388), on the global \<open>state['lr']\<close> and the
  optimizer.
\<close>

definition adjust_learning_rate ::
  "args \<Rightarrow> ('g, 'o) optimizer \<Rightarrow> int \<Rightarrow> real \<Rightarrow> real \<times> ('g, 'o) optimizer" where
  "adjust_learning_rate a opt epoch state_lr =
     (if epoch \<in> set (schedule a)
      then (let new_lr = state_lr * gamma a
            in (new_lr, opt\<lparr>param_groups := map (\<lambda>g. g\<lparr>pg_lr := new_lr\<rparr>) (param_groups opt)\<rparr>))
      else (state_lr, opt))"

subsection \<open>Resuming (lines 214 to 225)\<close>

text \<open>
  With a resume path, the checkpoint directory becomes the path's directory, the file is
  loaded, \<open>best_acc\<close> and \<open>start_epoch\<close> are taken from it and the network and the
  optimizer load their saved states (an optimizer refuses a state with another number of
  parameter groups). The result is the epoch to start from, the arguments and the state.
\<close>

definition resume_run ::
  "args \<Rightarrow> ('g, 'o) run \<Rightarrow> (py_error \<times> ('g, 'o) run) + (int \<times> args \<times> ('g, 'o) run)" where
  "resume_run a s =
     (if resume a = [] then Inr (start_epoch a, a, s)
      else
        let s1 = s\<lparr>r_out := r_out s @
                   [Print_text ''==> Resuming from checkpoint..'', Print_text (resume a)]\<rparr>
        in case r_files s1 (resume a) of
             None \<Rightarrow> Inl (AssertionError, s1)
           | Some ck \<Rightarrow>
               let a1 = a\<lparr>checkpoint := dirname (resume a)\<rparr>;
                   (sd, n1) = torch_load (ck_state_dict ck) (r_net s1);
                   s2 = s1\<lparr>r_net := n1, r_best_acc := ck_best_acc ck\<rparr>;
                   start = ck_epoch ck
               in (case load_state_dict (r_net s2) sd of
                     Inl (e, n2) \<Rightarrow> Inl (e, s2\<lparr>r_net := n2\<rparr>)
                   | Inr n2 \<Rightarrow>
                       if length (param_groups (ck_optimizer ck)) = length (param_groups (r_opt s2))
                       then Inr (start, a1, s2\<lparr>r_net := n2, r_opt := ck_optimizer ck\<rparr>)
                       else Inl (ValueError, s2\<lparr>r_net := n2\<rparr>)))"

subsection \<open>Logit rescaling (lines 237 to 245)\<close>

text \<open>
  Lines 237 to 240: \<open>imb_factor = 1. / args.imbalance\<close>, \<open>img_max = 50000/num_classes\<close>
  and the list \<open>num_sample\<close> of the per-class counts
  \<open>img_max * imb_factor ** (i/(num_classes - 1))\<close>.
\<close>

definition num_sample :: "nat \<Rightarrow> int \<Rightarrow> py_error + real list" where
  "num_sample num_classes imb =
     and_then (py_truediv 1 (of_int imb)) (\<lambda>imb_factor.
     and_then (py_truediv 50000 (real num_classes)) (\<lambda>img_max.
     collect (map (\<lambda>i.
         and_then (py_truediv (real i) (of_int (int num_classes - 1))) (\<lambda>x.
         and_then (py_pow imb_factor x) (\<lambda>y. Inr (img_max * y))))
       [0..<num_classes])))"

text \<open>
  Lines 242 and 243: every count is divided by \<open>max(num_sample)\<close> (evaluated for each
  element, hence never on an empty list) and raised to the power \<open>args.RS\<close>.
\<close>

definition normalized :: "real list \<Rightarrow> py_error + real list" where
  "normalized counts =
     collect (map (\<lambda>n. and_then (py_max counts) (\<lambda>m. py_truediv n m)) counts)"

definition scale_factors :: "real list \<Rightarrow> real \<Rightarrow> py_error + real list" where
  "scale_factors counts p =
     and_then (normalized counts) (\<lambda>ns. collect (map (\<lambda>n. py_pow n p) ns))"

text \<open>
  Lines 242 to 245, the rescaling itself: from the weight tensor at address \<open>W\<close>, the
  counts and the strength to a new tensor \<open>new_W = W / ns\<close>, whose address is returned.
  Line 244 turns the list of factors into a single-precision tensor.
\<close>

definition rescale :: "net \<Rightarrow> nat \<Rightarrow> real list \<Rightarrow> real \<Rightarrow> py_error + (nat \<times> net)" where
  "rescale n W counts p =
     and_then (scale_factors counts p) (\<lambda>ns.
     and_then (div_rows32 (cells n W) (map f32 ns)) (\<lambda>t. Inr (alloc t n)))"

subsection \<open>Evaluation only (lines 228 to 254)\<close>

definition num_classes_of :: "args \<Rightarrow> nat" where
  "num_classes_of a = (if dataset a = ''cifar10'' then 10 else 100)"

definition evaluate_only ::
  "('x, 'y, 'l, 'g, 'o) collab \<Rightarrow> args \<Rightarrow> ('g, 'o) run \<Rightarrow> (py_error \<times> ('g, 'o) run) + ('g, 'o) run" where
  "evaluate_only P a s =
     (let s1 = s\<lparr>r_out := r_out s @ [Print_text ''Evaluation only'']\<rparr>;
          ((test_loss, test_acc), n1) = test P (testloader P) (r_net s1);
          s2 = s1\<lparr>r_net := n1, r_out := r_out s1 @ [Print_test ''[w/o RS]'' test_loss test_acc]\<rparr>;
          current_state = state_dict (r_net s2)
      in case map_of current_state ''module.fc.weight'' of
           None \<Rightarrow> Inl (KeyError, s2)
         | Some W \<Rightarrow>
             (case and_then (num_sample (num_classes_of a) (imbalance a))
                     (\<lambda>counts. rescale (r_net s2) W counts (RS a)) of
                Inl e \<Rightarrow> Inl (e, s2)
              | Inr (new_W, n2) \<Rightarrow>
                  (let current_state1 = AList.update ''module.fc.weight'' new_W current_state
                   in case load_state_dict n2 current_state1 of
                        Inl (e, n3) \<Rightarrow> Inl (e, s2\<lparr>r_net := n3\<rparr>)
                      | Inr n3 \<Rightarrow>
                          (let ((test_loss2, test_acc2), n4) = test P (testloader P) n3
                           in Inr (s2\<lparr>r_net := n4, r_out := r_out s2 @
                                     [Print_test ''[w/  RS]'' test_loss2 test_acc2]\<rparr>)))))"

subsection \<open>The epoch loop (lines 257 to 285) and \<open>main\<close>\<close>

text \<open>\<open>max(a, b)\<close> on two numbers: \<open>a\<close> unless \<open>b\<close> is larger.\<close>

definition py_max2 :: "real \<Rightarrow> real \<Rightarrow> real" where
  "py_max2 a b = (if a < b then b else a)"

text \<open>
  Lines 273 to 281, after the epoch's test: the flag \<open>is_best\<close>, the new \<open>best_acc\<close>
  and the checkpoint written. The flag is returned with the state.
\<close>

definition checkpointing ::
  "args \<Rightarrow> int \<Rightarrow> real \<Rightarrow> ('g, 'o) run \<Rightarrow> bool \<times> ('g, 'o) run" where
  "checkpointing a epoch test_acc s =
     (let is_best = (r_best_acc s < test_acc);
          s1 = s\<lparr>r_best_acc := py_max2 test_acc (r_best_acc s)\<rparr>;
          state = \<lparr>ck_epoch = epoch + 1,
                   ck_state_dict = snapshot (r_net s1) (state_dict (r_net s1)),
                   ck_acc = test_acc, ck_best_acc = r_best_acc s1, ck_optimizer = r_opt s1\<rparr>
      in (is_best, s1\<lparr>r_files := save_checkpoint state is_best (checkpoint a) (r_files s1)\<rparr>))"

text \<open>The test of line 264 within a run: only the network is handed to \<open>test\<close>.\<close>

definition evaluating ::
  "('x, 'y, 'l, 'g, 'o) collab \<Rightarrow> ('g, 'o) run \<Rightarrow> (real \<times> real) \<times> ('g, 'o) run" where
  "evaluating P s = (let (res, n) = test P (testloader P) (r_net s) in (res, s\<lparr>r_net := n\<rparr>))"

definition epoch_body ::
  "('x, 'y, 'l, 'g, 'o) collab \<Rightarrow> args \<Rightarrow> int \<Rightarrow> ('g, 'o) run \<Rightarrow> (py_error \<times> ('g, 'o) run) + ('g, 'o) run" where
  "epoch_body P a epoch s =
     (let (lr1, opt1) = adjust_learning_rate a (r_opt s) epoch (r_lr s);
          s1 = s\<lparr>r_lr := lr1, r_opt := opt1\<rparr>
      in case train P (trainloader P epoch) (r_net s1) (r_opt s1) epoch of
           Inl (e, st) \<Rightarrow>
             Inl (e, s1\<lparr>r_net := t_net st, r_opt := t_opt st, r_out := r_out s1 @ t_out st\<rparr>)
         | Inr ((train_loss, train_acc), st) \<Rightarrow>
             (let s2 = s1\<lparr>r_net := t_net st, r_opt := t_opt st, r_out := r_out s1 @ t_out st\<rparr>;
                  ((test_loss, test_acc), s3) = evaluating P s2;
                  s4 = s3\<lparr>r_out := r_out s3 @
                         [Log_info (epoch + 1) (epochs a) (r_lr s3) train_loss test_loss
                            (train_acc / 100) (test_acc / 100)]\<rparr>
              in Inr (snd (checkpointing a epoch test_acc s4))))"

fun epoch_loop ::
  "('x, 'y, 'l, 'g, 'o) collab \<Rightarrow> args \<Rightarrow> int list \<Rightarrow> ('g, 'o) run \<Rightarrow> (py_error \<times> ('g, 'o) run) + ('g, 'o) run" where
  "epoch_loop P a [] s = Inr s"
| "epoch_loop P a (epoch # rest) s =
     (case epoch_body P a epoch s of
        Inl err \<Rightarrow> Inl err
      | Inr s1 \<Rightarrow> epoch_loop P a rest s1)"

text \<open>
  \<open>main\<close> from line 212 on, started in the state that the construction of the model
  and the optimizer leaves: \<open>range(start_epoch, args.epochs)\<close> is the list
  \<open>[start_epoch..epochs - 1]\<close>.
\<close>

definition main ::
  "('x, 'y, 'l, 'g, 'o) collab \<Rightarrow> args \<Rightarrow> ('g, 'o) run \<Rightarrow> (py_error \<times> ('g, 'o) run) + ('g, 'o) run" where
  "main P a s =
     (case resume_run a s of
        Inl err \<Rightarrow> Inl err
      | Inr (start, a1, s1) \<Rightarrow>
          if evaluate a1 then evaluate_only P a1 s1
          else (case epoch_loop P a1 [start..epochs a1 - 1] s1 of
                  Inl err \<Rightarrow> Inl err
                | Inr s2 \<Rightarrow>
                    Inr (s2\<lparr>r_out := r_out s2 @ [Print_text ''Best acc:'', Print_best (r_best_acc s2)]\<rparr>)))"

text \<open>
  The state in which \<open>main\<close> reaches line 212: \<open>best_acc = 0\<close>, \<open>state['lr']\<close> is
  \<open>args.lr\<close>, and the SGD optimizer has one parameter group with that learning rate.
\<close>

definition initial_run ::
  "args \<Rightarrow> net \<Rightarrow> 'g \<Rightarrow> 'o \<Rightarrow> (string \<rightharpoonup> ('g, 'o) checkpoint_record) \<Rightarrow> ('g, 'o) run" where
  "initial_run a n g st files =
     \<lparr>r_net = n, r_opt = \<lparr>param_groups = [\<lparr>pg_lr = lr a, pg_other = g\<rparr>], opt_state = st\<rparr>,
      r_lr = lr a, r_best_acc = 0, r_files = files, r_out = []\<rparr>"

subsection \<open>Derived notions used in the statements\<close>

text \<open>
  The checkpointing transitions of successive epochs, from epoch \<open>epoch\<close> on, whose
  tests gave the listed accuracies: the flags in order, and the state reached.
\<close>

fun checkpointing_seq ::
  "args \<Rightarrow> int \<Rightarrow> real list \<Rightarrow> ('g, 'o) run \<Rightarrow> bool list \<times> ('g, 'o) run" where
  "checkpointing_seq a epoch [] s = ([], s)"
| "checkpointing_seq a epoch (acc # accs) s =
     (let (b, s1) = checkpointing a epoch acc s;
          (bs, s2) = checkpointing_seq a (epoch + 1) accs s1
      in (b # bs, s2))"

text \<open>Lines 237 to 243 in one: the factors \<open>ns\<close> by which the rows are divided.\<close>

definition class_factors :: "nat \<Rightarrow> int \<Rightarrow> real \<Rightarrow> py_error + real list" where
  "class_factors num_classes imb p = and_then (num_sample num_classes imb) (\<lambda>counts. scale_factors counts p)"

text \<open>
  A well-formed network: the names of its table are distinct, so are the tensors they
  name, and every one of these tensors has been allocated.
\<close>

definition wf_net :: "net \<Rightarrow> bool" where
  "wf_net n \<longleftrightarrow>
     distinct (map fst (named n)) \<and> distinct (map snd (named n)) \<and>
     list_all (\<lambda>a. a < next_addr n) (map snd (named n))"

text \<open>
  A checkpoint record fits a network and an optimizer: it has the network's names in
  the network's order with tensors of the same shapes, and as many parameter groups.
\<close>

definition fits :: "('g, 'o) checkpoint_record \<Rightarrow> net \<Rightarrow> ('g, 'o) optimizer \<Rightarrow> bool" where
  "fits ck n opt \<longleftrightarrow>
     map fst (ck_state_dict ck) = map fst (named n) \<and>
     map (shape \<circ> snd) (ck_state_dict ck) = map (\<lambda>(name, a). shape (cells n a)) (named n) \<and>
     length (param_groups (ck_optimizer ck)) = length (param_groups opt)"




text \<open>
  Concrete collaborators for instances: a network with a 2 by 1 classifier, loaders of
  one-element batches over \<open>unit\<close>, a forward pass and a criterion that return 0 and an
  optimizer step that changes nothing.
\<close>

definition idle :: "(unit, unit, unit, unit, unit) collab" where
  "idle = \<lparr>forward = (\<lambda>n x. ()), criterion = (\<lambda>l y. 0), accuracy = (\<lambda>l y. (0, 0)),
           sgd_step = (\<lambda>opt n x y. (n, opt)), trainloader = (\<lambda>e. []), testloader = [([()], [()])]\<rparr>"

definition small_net :: net where
  "small_net = \<lparr>cells = (\<lambda>a. if a = 0 then [[Fin 1], [Fin 1]] else []), next_addr = 1,
                named = [(''module.fc.weight'', 0)], training = True\<rparr>"

definition idle_opt :: "(unit, unit) optimizer" where
  "idle_opt = \<lparr>param_groups = [\<lparr>pg_lr = 1 / 10, pg_other = ()\<rparr>], opt_state = ()\<rparr>"

text \<open>The command line with every option at its default.\<close>

definition default_args :: args where
  "default_args = \<lparr>dataset = ''cifar10'', imbalance = 1, epochs = 180, start_epoch = 0,
     lr = 1 / 10, schedule = [80, 150], gamma = 1 / 10, checkpoint = ''checkpoints'',
     resume = [], RS = 1 / 10, evaluate = False\<rparr>"

definition idle_run :: "(unit, unit) run" where
  "idle_run = initial_run default_args small_net () () Map.empty"

text \<open>The state in which a run ends, whether it returned or raised.\<close>

definition final_state :: "(py_error \<times> 's) + 's \<Rightarrow> 's" where
  "final_state r = (case r of Inl (e, s) \<Rightarrow> s | Inr s \<Rightarrow> s)"

text \<open>A network whose classifier has ten rows, and a run on it with the default options.\<close>

definition ten_net :: net where
  "ten_net = \<lparr>cells = (\<lambda>a. if a = 0 then replicate 10 [Fin 1] else []), next_addr = 1,
              named = [(''module.fc.weight'', 0)], training = True\<rparr>"

definition ten_run :: "(unit, unit) run" where
  "ten_run = initial_run default_args ten_net () () Map.empty"

section \<open>Checkpoint-worthiness (lines 273 to 281)\<close>

text \<open>
  Claim C1. In every checkpointing transition the flag \<open>is_best\<close> is the strict
  comparison \<open>test_acc > best_acc\<close>, so a tie is not an improvement, and \<open>best_acc\<close>
  becomes the larger of the two. For the test accuracies 40, 55, 50, 60 of successive
  epochs, starting from \<open>best_acc = 0\<close>, the flags are true, true, false, true and the
  final \<open>best_acc\<close> is 60.
\<close>

theorem checkpointing_best_tracking:
  "fst (checkpointing a epoch test_acc s) = (r_best_acc s < test_acc) \<and>
   fst (checkpointing a epoch (r_best_acc s) s) = False \<and>
   r_best_acc (snd (checkpointing a epoch test_acc s)) = max test_acc (r_best_acc s) \<and>
   fst (checkpointing_seq a epoch [40, 55, 50, 60] (s\<lparr>r_best_acc := 0\<rparr>)) =
     [True, True, False, True] \<and>
   r_best_acc (snd (checkpointing_seq a epoch [40, 55, 50, 60] (s\<lparr>r_best_acc := 0\<rparr>))) = 60"
proof (intro conjI)
  show "fst (checkpointing a epoch test_acc s) = (r_best_acc s < test_acc)"
    by (simp add: checkpointing_def Let_def)
  show "fst (checkpointing a epoch (r_best_acc s) s) = False"
    by (simp add: checkpointing_def Let_def)
  show "r_best_acc (snd (checkpointing a epoch test_acc s)) = max test_acc (r_best_acc s)"
    by (simp add: checkpointing_def Let_def py_max2_def max_def)
  show "fst (checkpointing_seq a epoch [40, 55, 50, 60] (s\<lparr>r_best_acc := 0\<rparr>)) =
          [True, True, False, True]"
    by (simp add: checkpointing_def Let_def py_max2_def split_def)
  show "r_best_acc (snd (checkpointing_seq a epoch [40, 55, 50, 60] (s\<lparr>r_best_acc := 0\<rparr>))) = 60"
    by (simp add: checkpointing_def Let_def py_max2_def split_def)
qed

section \<open>The evaluator and the trainer\<close>

text \<open>
  With an optimizer step that leaves the network alone and a positive print cadence,
  the training loop over the batches keeps the network and accumulates exactly what the
  test loop accumulates.
\<close>

lemma train_batches_idle_step:
  assumes step: "\<And>opt m x y. fst (sgd_step P opt m x y) = m" and d: "0 < denom"
  shows "\<exists>st'. train_batches P epoch denom idx loader st = Inr st' \<and> t_net st' = t_net st \<and>
           (t_losses st', t_top1 st', t_top5 st') =
             test_batches P (t_net st) loader (t_losses st, t_top1 st, t_top5 st)"
proof (induction loader arbitrary: idx st)
  case Nil
  show ?case by simp
next
  case (Cons b loader)
  obtain inputs targets where b: "b = (inputs, targets)" by (cases b)
  define outputs where "outputs = forward P (t_net st) inputs"
  define st1 where "st1 = st\<lparr>t_net := fst (sgd_step P (t_opt st) (t_net st) inputs targets),
       t_opt := snd (sgd_step P (t_opt st) (t_net st) inputs targets),
       t_losses := update (t_losses st) (criterion P outputs targets) (length inputs),
       t_top1 := update (t_top1 st) (fst (accuracy P outputs targets)) (length inputs),
       t_top5 := update (t_top5 st) (snd (accuracy P outputs targets)) (length inputs)\<rparr>"
  define st2 where "st2 =
       (if (idx + 1) mod denom = 0
        then st1\<lparr>t_out := t_out st1 @
               [Print_train epoch (1 / 13 * 100 * real (idx div denom + 1)) (criterion P outputs targets)]\<rparr>
        else st1)"
  have unfold: "train_batches P epoch denom idx (b # loader) st =
                  train_batches P epoch denom (idx + 1) loader st2"
    using d by (simp add: b Let_def split_def st2_def st1_def outputs_def)
  have keep: "t_net st2 = t_net st"
    "t_losses st2 = update (t_losses st) (criterion P outputs targets) (length inputs)"
    "t_top1 st2 = update (t_top1 st) (fst (accuracy P outputs targets)) (length inputs)"
    "t_top5 st2 = update (t_top5 st) (snd (accuracy P outputs targets)) (length inputs)"
    by (simp_all add: st2_def st1_def step)
  from Cons.IH [of "idx + 1" st2] obtain st' where
    "train_batches P epoch denom (idx + 1) loader st2 = Inr st'" "t_net st' = t_net st2"
    "(t_losses st', t_top1 st', t_top5 st') =
       test_batches P (t_net st2) loader (t_losses st2, t_top1 st2, t_top5 st2)"
    by blast
  then show ?case
    unfolding unfold by (simp add: keep b Let_def split_def outputs_def)
qed

text \<open>
  Claim C9. Running the evaluator changes nothing but the network's mode flag:
  \<open>test\<close> returns the network it was given with \<open>training\<close> cleared, so every tensor and
  the table of parameters are as before, and within a run the optimizer, the learning
  rate, the best accuracy and the files are untouched. Its batch-level computation is the
  trainer's: when the optimizer step leaves the network alone, the forward pass does not
  depend on the mode and the loader has at least 13 batches (so that the trainer's print
  cadence is positive), \<open>train\<close> returns the very averages that \<open>test\<close> returns.
\<close>

theorem test_frame:
  "snd (test P loader n) = n\<lparr>training := False\<rparr> \<and>
   snd (evaluating P s) = s\<lparr>r_net := (r_net s)\<lparr>training := False\<rparr>\<rparr> \<and>
   ((\<forall>opt m x y. fst (sgd_step P opt m x y) = m) \<and>
    (\<forall>m x. forward P (m\<lparr>training := True\<rparr>) x = forward P (m\<lparr>training := False\<rparr>) x) \<and>
    13 \<le> length loader \<longrightarrow>
      (\<exists>st. train P loader n opt epoch = Inr (fst (test P loader n), st)))"
proof (intro conjI impI)
  show "snd (test P loader n) = n\<lparr>training := False\<rparr>"
    by (simp add: test_def Let_def split_def)
  show "snd (evaluating P s) = s\<lparr>r_net := (r_net s)\<lparr>training := False\<rparr>\<rparr>"
    by (simp add: evaluating_def test_def Let_def split_def)
next
  assume h: "(\<forall>opt m x y. fst (sgd_step P opt m x y) = m) \<and>
    (\<forall>m x. forward P (m\<lparr>training := True\<rparr>) x = forward P (m\<lparr>training := False\<rparr>) x) \<and>
    13 \<le> length loader"
  then have d: "0 < length loader div 13" by (simp add: div_greater_zero_iff)
  have fw: "forward P (n\<lparr>training := True\<rparr>) = forward P (n\<lparr>training := False\<rparr>)"
    using h by auto
  have same: "test_batches P (n\<lparr>training := True\<rparr>) bs ms = test_batches P (n\<lparr>training := False\<rparr>) bs ms"
    for bs ms
    by (induction bs arbitrary: ms) (auto simp: fw Let_def split_def)
  define st0 where
    "st0 = \<lparr>t_net = n\<lparr>training := True\<rparr>, t_opt = opt, t_losses = new_meter,
            t_top1 = new_meter, t_top5 = new_meter, t_out = []\<rparr>"
  from train_batches_idle_step [of P "length loader div 13" epoch 0 loader st0] h d
  obtain st' where r: "train_batches P epoch (length loader div 13) 0 loader st0 = Inr st'"
    and m: "(t_losses st', t_top1 st', t_top5 st') =
             test_batches P (t_net st0) loader (t_losses st0, t_top1 st0, t_top5 st0)"
    by auto
  have "train P loader n opt epoch = Inr (fst (test P loader n), st')"
    using r m [symmetric] by (simp add: train_def test_def Let_def split_def st0_def same)
  then show "\<exists>st. train P loader n opt epoch = Inr (fst (test P loader n), st)" ..
qed

theorem test_frame_witness:
  "\<exists>st. train idle (replicate 13 ([()], [()])) small_net idle_opt 0 =
          Inr (fst (test idle (replicate 13 ([()], [()])) small_net), st)"
  using test_frame [of idle "replicate 13 ([()], [()])" small_net s idle_opt 0]
  by (simp add: idle_def)

text \<open>
  Claim C10. When the training loader yields at least one batch and fewer than 13, the
  cadence \<open>denom = max_iter // 13\<close> is 0 and \<open>train\<close> raises \<open>ZeroDivisionError\<close> at the
  modulo test of the first batch: the state it leaves is the one after that batch's
  optimizer step, nothing has been printed, and the epoch of the run that called it ends
  with the same error.
\<close>

theorem train_few_batches:
  assumes "loader = (inputs, targets) # rest" and "length loader < 13"
  shows "length loader div 13 = 0 \<and>
         train P loader n opt epoch =
           Inl (ZeroDivisionError,
             \<lparr>t_net = fst (sgd_step P opt (n\<lparr>training := True\<rparr>) inputs targets),
              t_opt = snd (sgd_step P opt (n\<lparr>training := True\<rparr>) inputs targets),
              t_losses = update new_meter
                (criterion P (forward P (n\<lparr>training := True\<rparr>) inputs) targets) (length inputs),
              t_top1 = update new_meter
                (fst (accuracy P (forward P (n\<lparr>training := True\<rparr>) inputs) targets)) (length inputs),
              t_top5 = update new_meter
                (snd (accuracy P (forward P (n\<lparr>training := True\<rparr>) inputs) targets)) (length inputs),
              t_out = []\<rparr>) \<and>
         (trainloader P epoch = loader \<longrightarrow>
            (\<exists>s'. epoch_body P a epoch s = Inl (ZeroDivisionError, s')))"
  using assms by (auto simp: train_def epoch_body_def Let_def split_def)

theorem train_few_batches_witness:
  "\<exists>st. train idle (replicate 12 ([()], [()])) small_net idle_opt 0 = Inl (ZeroDivisionError, st)"
  using train_few_batches [of "replicate 12 ([()], [()])" "[()]" "[()]" "replicate 11 ([()], [()])"
      idle small_net idle_opt 0]
  by (simp add: replicate_Suc [symmetric] del: replicate_Suc replicate.simps)

section \<open>Learning-rate schedule (lines 383 to 388)\<close>

text \<open>
  The global \<open>state['lr']\<close> changes only in \<open>adjust_learning_rate\<close>, once at the start
  of each epoch, and a run whose training loader has no batch or at least 13 of them in
  every epoch completes its epochs.
\<close>

lemma epoch_body_lr:
  "epoch_body P a epoch s = Inr s' \<Longrightarrow>
     r_lr s' = (if epoch \<in> set (schedule a) then r_lr s * gamma a else r_lr s)"
  by (auto simp: epoch_body_def adjust_learning_rate_def checkpointing_def evaluating_def
      Let_def split_def split: sum.splits if_splits)

lemma epoch_loop_lr:
  "epoch_loop P a es s = Inr s' \<Longrightarrow>
     r_lr s' = foldl (\<lambda>l e. if e \<in> set (schedule a) then l * gamma a else l) (r_lr s) es"
proof (induction es arbitrary: s)
  case Nil
  then show ?case by simp
next
  case (Cons e es)
  then obtain s1 where b: "epoch_body P a e s = Inr s1" and l: "epoch_loop P a es s1 = Inr s'"
    by (auto split: sum.splits)
  show ?case using Cons.IH [OF l] epoch_body_lr [OF b] by simp
qed

lemma decay_80_150:
  "0 \<le> n \<Longrightarrow> foldl (\<lambda>l e. if e \<in> set [80, 150] then l * g else l) (l0 :: real) [0..n] =
     (if n < 80 then l0 else if n < 150 then l0 * g else l0 * g * g)"
proof (induction n rule: int_ge_induct)
  case base
  show ?case by simp
next
  case (step i)
  have "[0..i + 1] = [0..i] @ [i + 1]" using step.hyps by (simp add: upto_rec2)
  then show ?case using step by auto
qed

lemma train_batches_total:
  "0 < denom \<or> loader = [] \<Longrightarrow> \<exists>st'. train_batches P epoch denom idx loader st = Inr st'"
proof (induction loader arbitrary: idx st)
  case Nil
  show ?case by simp
next
  case (Cons b loader)
  obtain inputs targets where b: "b = (inputs, targets)" by (cases b)
  from Cons.prems have d: "0 < denom" by simp
  show ?case using Cons.IH d by (simp add: b Let_def split_def)
qed

lemma train_total:
  "13 \<le> length loader \<or> loader = [] \<Longrightarrow> \<exists>r. train P loader n opt epoch = Inr r"
proof -
  assume "13 \<le> length loader \<or> loader = []"
  then have "0 < length loader div 13 \<or> loader = []" by (auto simp: div_greater_zero_iff)
  from train_batches_total [OF this] show ?thesis
    unfolding train_def Let_def by (metis (no_types, lifting) sum.simps(6))
qed

lemma epoch_body_total:
  "13 \<le> length (trainloader P epoch) \<or> trainloader P epoch = [] \<Longrightarrow>
     \<exists>s'. epoch_body P a epoch s = Inr s'"
proof -
  assume h: "13 \<le> length (trainloader P epoch) \<or> trainloader P epoch = []"
  obtain r where
    "train P (trainloader P epoch)
       (r_net (s\<lparr>r_lr := fst (adjust_learning_rate a (r_opt s) epoch (r_lr s)),
                 r_opt := snd (adjust_learning_rate a (r_opt s) epoch (r_lr s))\<rparr>))
       (r_opt (s\<lparr>r_lr := fst (adjust_learning_rate a (r_opt s) epoch (r_lr s)),
                 r_opt := snd (adjust_learning_rate a (r_opt s) epoch (r_lr s))\<rparr>)) epoch = Inr r"
    using train_total [OF h] by blast
  then show ?thesis
    by (cases r) (simp add: epoch_body_def Let_def split_def)
qed

lemma epoch_loop_total:
  "(\<And>e. 13 \<le> length (trainloader P e) \<or> trainloader P e = []) \<Longrightarrow>
     \<exists>s'. epoch_loop P a es s = Inr s'"
proof (induction es arbitrary: s)
  case Nil
  show ?case by simp
next
  case (Cons e es)
  have "\<exists>s1. epoch_body P a e s = Inr s1"
    by (rule epoch_body_total) (rule Cons.prems)
  then obtain s1 where b: "epoch_body P a e s = Inr s1" ..
  have "\<exists>s'. epoch_loop P a es s1 = Inr s'"
    by (rule Cons.IH) (rule Cons.prems)
  then show ?case using b by simp
qed

text \<open>
  Claim C3. With the schedule \<open>[80, 150]\<close> and \<open>gamma = 0.1\<close>: at an epoch other than
  80 and 150 the adjustment leaves the rate and the optimizer as they are; at epoch 80
  and at epoch 150 the rate is multiplied by 0.1 and every parameter group of the
  optimizer gets the new rate; so a rate of 0.1 becomes 0.01 at epoch 80 and 0.001 at
  epoch 150, and after the epochs 0 to \<open>n\<close> of a run started with rate 0.1 the rate is
  0.1 for \<open>n < 80\<close>, 0.01 for \<open>80 \<le> n < 150\<close> and 0.001 from 150 on.
\<close>

theorem lr_schedule:
  assumes "schedule a = [80, 150]" and "gamma a = 1 / 10"
  shows "(epoch \<noteq> 80 \<and> epoch \<noteq> 150 \<longrightarrow> adjust_learning_rate a opt epoch l = (l, opt)) \<and>
         (epoch = 80 \<or> epoch = 150 \<longrightarrow>
            fst (adjust_learning_rate a opt epoch l) = l / 10 \<and>
            map pg_lr (param_groups (snd (adjust_learning_rate a opt epoch l))) =
              replicate (length (param_groups opt)) (l / 10)) \<and>
         fst (adjust_learning_rate a opt 80 (1 / 10)) = 1 / 100 \<and>
         fst (adjust_learning_rate a opt 150 (1 / 100)) = 1 / 1000 \<and>
         (0 \<le> n \<and> r_lr s = 1 / 10 \<and> epoch_loop P a [0..n] s = Inr s' \<longrightarrow>
            r_lr s' = (if n < 80 then 1 / 10 else if n < 150 then 1 / 100 else 1 / 1000))"
proof (intro conjI impI)
  show "adjust_learning_rate a opt epoch l = (l, opt)" if "epoch \<noteq> 80 \<and> epoch \<noteq> 150"
    using that assms by (simp add: adjust_learning_rate_def)
  show "fst (adjust_learning_rate a opt epoch l) = l / 10" if "epoch = 80 \<or> epoch = 150"
    using that assms by (auto simp: adjust_learning_rate_def Let_def)
  show "map pg_lr (param_groups (snd (adjust_learning_rate a opt epoch l))) =
          replicate (length (param_groups opt)) (l / 10)" if "epoch = 80 \<or> epoch = 150"
    using that assms by (auto simp: adjust_learning_rate_def Let_def map_replicate_const comp_def)
  show "fst (adjust_learning_rate a opt 80 (1 / 10)) = 1 / 100"
    using assms by (simp add: adjust_learning_rate_def Let_def)
  show "fst (adjust_learning_rate a opt 150 (1 / 100)) = 1 / 1000"
    using assms by (simp add: adjust_learning_rate_def Let_def)
  show "r_lr s' = (if n < 80 then 1 / 10 else if n < 150 then 1 / 100 else 1 / 1000)"
    if h: "0 \<le> n \<and> r_lr s = 1 / 10 \<and> epoch_loop P a [0..n] s = Inr s'"
  proof -
    note n = h [THEN conjunct1] and l = h [THEN conjunct2, THEN conjunct1]
      and el = h [THEN conjunct2, THEN conjunct2]
    have "r_lr s' = foldl (\<lambda>l e. if e \<in> set (schedule a) then l * gamma a else l) (r_lr s) [0..n]"
      by (rule epoch_loop_lr [OF el])
    also have "\<dots> = foldl (\<lambda>l e. if e \<in> set [80, 150] then l * (1 / 10) else l) (1 / 10) [0..n]"
      by (simp only: assms l)
    also have "\<dots> = (if n < 80 then 1 / 10 else if n < 150 then 1 / 10 * (1 / 10)
                        else 1 / 10 * (1 / 10) * (1 / 10))"
      by (rule decay_80_150 [OF n])
    finally show ?thesis by simp
  qed
qed

theorem lr_schedule_witness:
  "fst (adjust_learning_rate default_args idle_opt 80 (1 / 10)) = 1 / 100 \<and>
   adjust_learning_rate default_args idle_opt 79 (1 / 10) = (1 / 10, idle_opt) \<and>
   map pg_lr (param_groups (snd (adjust_learning_rate default_args idle_opt 150 (1 / 100)))) = [1 / 1000] \<and>
   (\<exists>s'. epoch_loop idle default_args [0..150] idle_run = Inr s' \<and> r_lr s' = 1 / 1000)"
proof -
  have a: "schedule default_args = [80, 150]" "gamma default_args = 1 / 10"
    by (simp_all add: default_args_def)
  have "\<exists>s'. epoch_loop idle default_args [0..150] idle_run = Inr s'"
    by (rule epoch_loop_total) (simp add: idle_def)
  then obtain s' where s': "epoch_loop idle default_args [0..150] idle_run = Inr s'" ..
  have l: "r_lr idle_run = 1 / 10"
    by (simp add: idle_run_def initial_run_def default_args_def)
  note t1 = lr_schedule [OF a, where epoch = 79 and opt = idle_opt and l = "1 / 10" and n = 150
      and s = idle_run and P = idle and s' = s']
  note t2 = lr_schedule [OF a, where epoch = 150 and opt = idle_opt and l = "1 / 100" and n = 150
      and s = idle_run and P = idle and s' = s']
  show ?thesis using t1 t2 s' l by (simp add: idle_opt_def)
qed

section \<open>The class-count profile and the scale factors (lines 237 to 243)\<close>

text \<open>
  Closed forms: a comprehension none of whose elements raises, \<open>max\<close> of a non-empty
  list, and, for at least two classes and an imbalance of at least 1, the counts, the
  normalized counts and the factors.
\<close>

lemma collect_map_Inr:
  "(\<And>x. x \<in> set xs \<Longrightarrow> f x = Inr (g x)) \<Longrightarrow> collect (map f xs) = Inr (map g xs)"
  by (induction xs) auto

lemma py_max_Max: "xs \<noteq> [] \<Longrightarrow> py_max xs = Inr (Max (set xs))"
proof (cases xs)
  case Nil
  then show "xs \<noteq> [] \<Longrightarrow> ?thesis" by simp
next
  case (Cons x ys)
  have "foldl (\<lambda>m y. if m < y then y else m) x ys = fold max ys x"
    by (induction ys arbitrary: x) (auto simp: max_def)
  then show ?thesis using Cons Max.set_eq_fold [of x ys] by simp
qed

lemma num_sample_closed:
  assumes "2 \<le> C" and "1 \<le> r"
  shows "num_sample C r =
           Inr (map (\<lambda>i. 50000 / real C * (1 / real_of_int r) powr (real i / real (C - 1))) [0..<C])"
proof -
  define d where "d = real (C - 1)"
  define b where "b = 1 / real_of_int r"
  define m where "m = 50000 / real C"
  have c: "real_of_int (int C - 1) = d" "d \<noteq> 0" "real C \<noteq> 0" "real_of_int r \<noteq> 0" "0 < b"
    using assms by (simp_all add: of_nat_diff d_def b_def)
  have el: "and_then (py_truediv (real i) d) (\<lambda>x. and_then (py_pow b x) (\<lambda>y. Inr (m * y))) =
         Inr (m * b powr (real i / d))" for i
    using c by (simp add: and_then_def py_truediv_def py_pow_def)
  have "num_sample C r =
          collect (map (\<lambda>i. and_then (py_truediv (real i) d) (\<lambda>x. and_then (py_pow b x) (\<lambda>y. Inr (m * y))))
            [0..<C])"
  proof -
    have t: "py_truediv 1 (real_of_int r) = Inr b" "py_truediv 50000 (real C) = Inr m"
      using c(3,4) by (simp_all add: py_truediv_def b_def m_def)
    have u: "and_then (Inr v) f = f v" for v :: real and f :: "real \<Rightarrow> py_error + real list"
      by (simp add: and_then_def)
    show ?thesis unfolding num_sample_def c(1) t u ..
  qed
  also have "\<dots> = Inr (map (\<lambda>i. m * b powr (real i / d)) [0..<C])"
    by (rule collect_map_Inr) (rule el)
  finally show ?thesis by (simp add: d_def b_def m_def)
qed

lemma inv_powr: "0 < (r::real) \<Longrightarrow> (1 / r) powr x = r powr (- x)"
  by (simp add: powr_divide powr_minus_divide)


lemma normalized_closed:
  assumes "counts \<noteq> []" and "Max (set counts) \<noteq> 0"
  shows "normalized counts = Inr (map (\<lambda>n. n / Max (set counts)) counts)"
  unfolding normalized_def
  by (rule collect_map_Inr) (simp add: py_max_Max [OF assms(1)] and_then_def py_truediv_def assms(2))

lemma scale_factors_closed:
  assumes "counts \<noteq> []" and "list_all (\<lambda>n. 0 < n) counts"
  shows "scale_factors counts p = Inr (map (\<lambda>n. (n / Max (set counts)) powr p) counts)"
proof -
  have pos: "0 < n" if "n \<in> set counts" for n
    using that assms(2) by (simp add: list_all_iff)
  have "Max (set counts) \<in> set counts" using assms(1) by (intro Max_in) simp_all
  then have M: "0 < Max (set counts)" by (rule pos)
  have n: "normalized counts = Inr (map (\<lambda>n. n / Max (set counts)) counts)"
    using M by (intro normalized_closed assms(1)) simp
  have "collect (map (\<lambda>n. py_pow n p) (map (\<lambda>n. n / Max (set counts)) counts)) =
          Inr (map (\<lambda>n. n powr p) (map (\<lambda>n. n / Max (set counts)) counts))"
  proof (rule collect_map_Inr)
    fix x assume "x \<in> set (map (\<lambda>n. n / Max (set counts)) counts)"
    then obtain n where "n \<in> set counts" "x = n / Max (set counts)" by auto
    then have "0 < x" using pos M by simp
    then show "py_pow x p = Inr (x powr p)" by (simp add: py_pow_def)
  qed
  then show ?thesis by (simp add: scale_factors_def n and_then_def comp_def)
qed

lemma profile_max:
  assumes "2 \<le> C" and "1 \<le> r"
  shows "Max (set (map (\<lambda>i. 50000 / real C * (1 / real_of_int r) powr (real i / real (C - 1))) [0..<C])) =
           50000 / real C"
proof (rule Max_eqI)
  fix y
  assume "y \<in> set (map (\<lambda>i. 50000 / real C * (1 / real_of_int r) powr (real i / real (C - 1))) [0..<C])"
  then obtain i where y: "y = 50000 / real C * (1 / real_of_int r) powr (real i / real (C - 1))" by auto
  have "(1 / real_of_int r) powr (real i / real (C - 1)) \<le> 1"
    using assms by (intro powr_le1) simp_all
  then have "50000 / real C * (1 / real_of_int r) powr (real i / real (C - 1)) \<le> 50000 / real C * 1"
    by (intro mult_left_mono) simp_all
  then show "y \<le> 50000 / real C" by (simp add: y)
next
  have "0 < C" using assms by simp
  then have "(\<lambda>i. 50000 / real C * (1 / real_of_int r) powr (real i / real (C - 1))) 0 \<in>
      (\<lambda>i. 50000 / real C * (1 / real_of_int r) powr (real i / real (C - 1))) ` {0..<C}"
    by (intro imageI) simp
  then show "50000 / real C \<in>
      set (map (\<lambda>i. 50000 / real C * (1 / real_of_int r) powr (real i / real (C - 1))) [0..<C])"
    using assms by simp
qed simp

lemma profile_closed:
  assumes "2 \<le> C" and "1 \<le> r"
  defines "counts \<equiv> map (\<lambda>i. 50000 / real C * (1 / real_of_int r) powr (real i / real (C - 1))) [0..<C]"
  shows "num_sample C r = Inr counts"
    and "normalized counts = Inr (map (\<lambda>i. (1 / real_of_int r) powr (real i / real (C - 1))) [0..<C])"
    and "scale_factors counts p =
           Inr (map (\<lambda>i. ((1 / real_of_int r) powr (real i / real (C - 1))) powr p) [0..<C])"
    and "class_factors C r p =
           Inr (map (\<lambda>i. ((1 / real_of_int r) powr (real i / real (C - 1))) powr p) [0..<C])"
    and "list_all (\<lambda>n. 0 < n) counts"
proof -
  show ns: "num_sample C r = Inr counts"
    unfolding counts_def by (rule num_sample_closed [OF assms(1,2)])
  have M: "Max (set counts) = 50000 / real C"
    unfolding counts_def by (rule profile_max [OF assms(1,2)])
  have ne: "counts \<noteq> []" using assms(1) by (simp add: counts_def)
  have C: "real C \<noteq> 0" using assms(1) by simp
  show pos: "list_all (\<lambda>n. 0 < n) counts"
    using assms(1,2) by (simp add: counts_def list_all_iff)
  have "normalized counts = Inr (map (\<lambda>n. n / (50000 / real C)) counts)"
    using normalized_closed [OF ne] M C by simp
  also have "map (\<lambda>n. n / (50000 / real C)) counts =
      map (\<lambda>i. (1 / real_of_int r) powr (real i / real (C - 1))) [0..<C]"
    using C by (simp add: counts_def comp_def)
  finally show "normalized counts = Inr (map (\<lambda>i. (1 / real_of_int r) powr (real i / real (C - 1))) [0..<C])" .
  have "scale_factors counts p = Inr (map (\<lambda>n. (n / (50000 / real C)) powr p) counts)"
    using scale_factors_closed [OF ne pos, of p] M by simp
  also have "map (\<lambda>n. (n / (50000 / real C)) powr p) counts =
      map (\<lambda>i. ((1 / real_of_int r) powr (real i / real (C - 1))) powr p) [0..<C]"
    using C by (simp add: counts_def comp_def)
  finally show sf: "scale_factors counts p =
           Inr (map (\<lambda>i. ((1 / real_of_int r) powr (real i / real (C - 1))) powr p) [0..<C])" .
  show "class_factors C r p =
           Inr (map (\<lambda>i. ((1 / real_of_int r) powr (real i / real (C - 1))) powr p) [0..<C])"
    by (simp add: class_factors_def ns and_then_def sf)
qed

text \<open>
  Claim C2. For \<open>C \<ge> 2\<close> classes and an imbalance factor \<open>r \<ge> 1\<close>, lines 237 to 240
  compute without raising the list of the \<open>C\<close> counts
  \<open>count(i) = max_count * r^(-i/(C-1))\<close> with \<open>max_count = 50000 / C\<close>; for
  \<open>C = 10\<close> and \<open>r = 100\<close>, \<open>count(0) = max_count\<close> and \<open>count(9) = max_count / 100\<close>.
  (Over the reals the equalities are exact, hence within any tolerance.)
\<close>

theorem num_sample_interpolation:
  assumes "2 \<le> C" and "1 \<le> r"
  shows "\<exists>counts. num_sample C r = Inr counts \<and> length counts = C \<and>
           (\<forall>i<C. counts ! i = 50000 / real C * real_of_int r powr (- (real i / real (C - 1)))) \<and>
           (C = 10 \<and> r = 100 \<longrightarrow> counts ! 0 = 50000 / 10 \<and> counts ! 9 = 50000 / 10 / 100)"
proof -
  let ?counts = "map (\<lambda>i. 50000 / real C * (1 / real_of_int r) powr (real i / real (C - 1))) [0..<C]"
  have r: "0 < real_of_int r" using assms(2) by simp
  have el: "?counts ! i = 50000 / real C * real_of_int r powr (- (real i / real (C - 1)))" if "i < C" for i
    using that by (simp add: inv_powr [OF r])
  have inst: "?counts ! 0 = 50000 / 10 \<and> ?counts ! 9 = 50000 / 10 / 100" if "C = 10 \<and> r = 100"
    using that by (simp add: inv_powr powr_minus_divide del: upt_Suc)
  show ?thesis
    using num_sample_closed [OF assms] el inst by (intro exI [of _ ?counts]) simp
qed

theorem num_sample_interpolation_witness:
  "\<exists>counts. num_sample 10 100 = Inr counts \<and> length counts = 10 \<and>
     counts ! 0 = 5000 \<and> counts ! 9 = 50"
  using num_sample_interpolation [of 10 100] by auto

section \<open>The rescaling of the classifier weights (lines 242 to 245)\<close>


lemma div_rows_shape:
  "div_rows W ss = Inr W' \<Longrightarrow> length W = length ss \<Longrightarrow> shape W' = shape W"
proof -
  assume r: "div_rows W ss = Inr W'" and l: "length W = length ss"
  have "shape (map2 (\<lambda>row s. map (\<lambda>w. tdiv w s) row) W ss) = shape W"
    using l by (induction W ss rule: list_induct2) (simp_all add: shape_def)
  then show ?thesis using r l by (simp add: div_rows_def)
qed




subsection \<open>Single precision (lines 244 and 245)\<close>

text \<open>
  The factors are as many as the counts, and a division without broadcasting keeps the
  shape. A factor inside the range of single precision is stored as it is, and then the
  quotient of line 245 is the exact quotient of \<open>div_rows\<close> brought into the range.
\<close>

lemma collect_length: "collect rs = Inr vs \<Longrightarrow> length vs = length rs"
  by (induction rs arbitrary: vs) (auto split: sum.splits)

lemma scale_factors_length: "scale_factors counts p = Inr ss \<Longrightarrow> length ss = length counts"
proof -
  assume sf: "scale_factors counts p = Inr ss"
  then obtain ns where n: "normalized counts = Inr ns" and c: "collect (map (\<lambda>n. py_pow n p) ns) = Inr ss"
    by (auto simp: scale_factors_def and_then_def split: sum.splits)
  from collect_length [OF n [unfolded normalized_def]] collect_length [OF c]
  show ?thesis by simp
qed

lemma div_rows32_shape:
  "div_rows32 W ns = Inr W' \<Longrightarrow> length W = length ns \<Longrightarrow> shape W' = shape W"
proof -
  assume r: "div_rows32 W ns = Inr W'" and l: "length W = length ns"
  have "shape (map2 (\<lambda>row s. map (\<lambda>w. tdiv32 w s) row) W ns) = shape W"
    using l by (induction W ns rule: list_induct2) (simp_all add: shape_def)
  then show ?thesis using r l by (simp add: div_rows32_def)
qed




text \<open>What a returning \<open>rescale\<close> has done: one tensor allocated, nothing else touched.\<close>

lemma rescale_result:
  assumes "rescale n W counts p = Inr (new_W, n')"
  shows "\<exists>ss t. scale_factors counts p = Inr ss \<and> div_rows32 (cells n W) (map f32 ss) = Inr t \<and>
           new_W = next_addr n \<and>
           n' = n\<lparr>cells := (cells n)(next_addr n := t), next_addr := Suc (next_addr n)\<rparr>"
  using assms by (auto simp: rescale_def and_then_def alloc_def split: sum.splits)






lemma rescale_profile:
  assumes "2 \<le> C" and "1 \<le> r" and "length (cells n W) = C"
  shows "rescale n W (map (\<lambda>i. 50000 / real C * (1 / real_of_int r) powr (real i / real (C - 1))) [0..<C]) p =
     Inr (alloc (map2 (\<lambda>row s. map (\<lambda>w. tdiv32 w s) row) (cells n W)
            (map f32 (map (\<lambda>i. ((1 / real_of_int r) powr (real i / real (C - 1))) powr p) [0..<C]))) n)"
  unfolding rescale_def profile_closed(3) [OF assms(1,2)] and_then_def div_rows32_def
  using assms(3) by simp

section \<open>Evaluation only (lines 228 to 254)\<close>

text \<open>
  Loading a state dictionary in which every entry is the module's own tensor of that
  name, except that the entry \<open>k\<close> is a new tensor of the right shape: only the
  module's tensor \<open>k\<close> changes, to the contents of the new one.
\<close>

lemma copy_entries_update:
  assumes "\<And>name a. (name, a) \<in> set sd \<Longrightarrow> map_of own name = Some a \<or> (name = k \<and> a = new)"
    and "map_of own k = Some W" and "shape (c new) = shape (c W)" and "new \<noteq> W"
  shows "copy_entries own sd c = Inr (if (k, new) \<in> set sd then c(W := c new) else c)"
  using assms
proof (induction sd arbitrary: c)
  case Nil
  show ?case by simp
next
  case (Cons e sd)
  obtain name a where e: "e = (name, a)" by (cases e)
  have rest: "\<And>name a. (name, a) \<in> set sd \<Longrightarrow> map_of own name = Some a \<or> (name = k \<and> a = new)"
    using Cons.prems(1) by simp
  from Cons.prems(1) [of name a] e
  consider (self) "map_of own name = Some a" | (new) "name = k" "a = new" by auto
  then show ?case
  proof cases
    case self
    have "copy_entries own (e # sd) c = copy_entries own sd c"
      by (simp add: e self)
    also have "\<dots> = Inr (if (k, new) \<in> set sd then c(W := c new) else c)"
      by (rule Cons.IH [OF rest Cons.prems(2,3,4)])
    finally show ?thesis using self Cons.prems(2,4) by (auto simp: e)
  next
    case new
    let ?c = "c(W := c new)"
    have sh: "shape (?c new) = shape (?c W)" using Cons.prems(4) by simp
    have "copy_entries own (e # sd) c = copy_entries own sd ?c"
      using Cons.prems(2,3) by (simp add: e new)
    also have "\<dots> = Inr (if (k, new) \<in> set sd then ?c(W := ?c new) else ?c)"
      by (rule Cons.IH [OF rest Cons.prems(2) sh Cons.prems(4)])
    also have "(if (k, new) \<in> set sd then ?c(W := ?c new) else ?c) = ?c"
      using Cons.prems(4) by simp
    finally show ?thesis by (simp add: e new)
  qed
qed

lemma load_rescaled:
  assumes "distinct (map fst (named n))" and "map_of (named n) k = Some W"
    and "new \<noteq> W" and "shape (cells n new) = shape (cells n W)"
  shows "load_state_dict n (AList.update k new (named n)) =
           Inr (n\<lparr>cells := (cells n)(W := cells n new)\<rparr>)"
proof -
  let ?sd = "AList.update k new (named n)"
  have kin: "k \<in> fst ` set (named n)"
    using assms(2) map_of_eq_None_iff [of "named n" k] by auto
  have keys: "map fst ?sd = map fst (named n)" using kin by (simp add: update_keys)
  have d: "distinct (map fst ?sd)" using assms(1) by (simp add: distinct_update)
  have ent: "map_of (named n) name = Some a \<or> (name = k \<and> a = new)" if "(name, a) \<in> set ?sd" for name a
  proof -
    have "map_of ?sd name = Some a" using that d by simp
    then show ?thesis by (auto simp: update_conv' split: if_splits)
  qed
  have "map_of ?sd k = Some new" by (simp add: update_conv')
  then have mem: "(k, new) \<in> set ?sd" by (rule map_of_SomeD)
  have "copy_entries (named n) ?sd (cells n) = Inr ((cells n)(W := cells n new))"
    using copy_entries_update [of ?sd "named n" k new W "cells n", OF ent assms(2,4,3)] mem by simp
  then show ?thesis
    by (simp add: load_state_dict_def keys list_all_iff)
qed






text \<open>
  The branch on a well-formed network whose classifier has one row per factor: the
  rescaled tensor is allocated, copied into the classifier, and both result lines are
  printed.
\<close>

lemma evaluate_only_run:
  assumes "wf_net (r_net s)"
    and "map_of (named (r_net s)) ''module.fc.weight'' = Some W"
    and "class_factors (num_classes_of a) (imbalance a) (RS a) = Inr ss"
    and "length (cells (r_net s) W) = length ss"
    and "W' = map2 (\<lambda>row s. map (\<lambda>w. tdiv32 w s) row) (cells (r_net s) W) (map f32 ss)"
    and "n3 = (r_net s)\<lparr>cells := (cells (r_net s))(next_addr (r_net s) := W', W := W'),
                        next_addr := Suc (next_addr (r_net s)), training := False\<rparr>"
  shows "evaluate_only P a s =
      Inr (s\<lparr>r_net := n3, r_out := r_out s @
           [Print_text ''Evaluation only'',
            Print_test ''[w/o RS]'' (fst (fst (test P (testloader P) (r_net s))))
              (snd (fst (test P (testloader P) (r_net s)))),
            Print_test ''[w/  RS]'' (fst (fst (test P (testloader P) n3)))
              (snd (fst (test P (testloader P) n3)))]\<rparr>)"
proof -
  define n where "n = r_net s"
  define n1 where "n1 = n\<lparr>training := False\<rparr>"
  from assms(3) obtain counts where
    ns: "num_sample (num_classes_of a) (imbalance a) = Inr counts" and
    sf: "scale_factors counts (RS a) = Inr ss"
    by (auto simp: class_factors_def and_then_def split: sum.splits)
  have len: "length (cells n W) = length (map f32 ss)" using assms(4) by (simp add: n_def)
  have dr: "div_rows32 (cells n W) (map f32 ss) = Inr W'"
    using len by (simp add: div_rows32_def assms(5) n_def)
  have sh: "shape W' = shape (cells n W)" by (rule div_rows32_shape [OF dr len])
  define new where "new = next_addr n"
  define n2 where "n2 = n1\<lparr>cells := (cells n1)(new := W'), next_addr := Suc new\<rparr>"
  have wf: "distinct (map fst (named n))" "list_all (\<lambda>a. a < next_addr n) (map snd (named n))"
    using assms(1) by (simp_all add: wf_net_def n_def)
  have key: "map_of (named n) ''module.fc.weight'' = Some W" using assms(2) by (simp add: n_def)
  then have "W \<in> set (map snd (named n))" by (force dest: map_of_SomeD)
  then have Wlt: "W < new" using wf(2) by (auto simp: list_all_iff new_def)
  have rs: "and_then (num_sample (num_classes_of a) (imbalance a)) (\<lambda>counts. rescale n1 W counts (RS a)) =
      Inr (new, n2)"
    by (simp add: ns and_then_def rescale_def sf n1_def dr alloc_def n2_def new_def)
  have ld: "load_state_dict n2 (AList.update ''module.fc.weight'' new (named n2)) =
      Inr (n2\<lparr>cells := (cells n2)(W := cells n2 new)\<rparr>)"
    using wf(1) key Wlt sh by (intro load_rescaled) (simp_all add: n2_def n1_def)
  have n3: "n2\<lparr>cells := (cells n2)(W := cells n2 new)\<rparr> = n3"
    by (simp add: n2_def n1_def assms(6) new_def n_def)
  have t1: "snd (test P (testloader P) (r_net s)) = n1"
    by (simp add: test_def Let_def split_def n1_def n_def)
  have t2: "snd (test P (testloader P) n3) = n3" by (simp add: test_def Let_def split_def assms(6))
  have k1: "map_of (named n1) ''module.fc.weight'' = Some W" using key by (simp add: n1_def)
  have nm: "named n2 = named n1" by (simp add: n2_def)
  note ld' = ld [unfolded n3 nm]
  show ?thesis
    by (simp add: evaluate_only_def Let_def split_def t1 state_dict_def k1 rs ld' t2)
qed

text \<open>The run \<open>--evaluate --imbalance r --RS p\<close> on the ten-row network.\<close>

lemma ten_run_evaluate:
  assumes "1 \<le> r"
  shows "main idle (default_args\<lparr>evaluate := True, imbalance := r, RS := p\<rparr>) ten_run =
     Inr (ten_run\<lparr>r_net := ten_net\<lparr>cells := (cells ten_net)
              (1 := map (\<lambda>i. [tdiv32 (Fin 1) (f32 (((1 / real_of_int r) powr (real i / 9)) powr p))]) [0..<10],
               0 := map (\<lambda>i. [tdiv32 (Fin 1) (f32 (((1 / real_of_int r) powr (real i / 9)) powr p))]) [0..<10]),
            next_addr := 2, training := False\<rparr>,
          r_out := [Print_text ''Evaluation only'', Print_test ''[w/o RS]'' 0 0,
                    Print_test ''[w/  RS]'' 0 0]\<rparr>)"
proof -
  define a where "a = default_args\<lparr>evaluate := True, imbalance := r, RS := p\<rparr>"
  define ss where "ss = map (\<lambda>i. ((1 / real_of_int r) powr (real i / real (10 - 1))) powr p) [0..<10]"
  have C: "num_classes_of a = 10" by (simp add: a_def num_classes_of_def default_args_def)
  have cf: "class_factors (num_classes_of a) (imbalance a) (RS a) = Inr ss"
    unfolding C ss_def using profile_closed(4) [of 10 r p] assms by (simp add: a_def)
  have wf: "wf_net (r_net ten_run)"
    by (simp add: wf_net_def ten_run_def ten_net_def initial_run_def)
  have key: "map_of (named (r_net ten_run)) ''module.fc.weight'' = Some 0"
    by (simp add: ten_run_def ten_net_def initial_run_def)
  have len: "length (cells (r_net ten_run) 0) = length ss"
    by (simp add: ten_run_def ten_net_def initial_run_def ss_def)
  have t: "fst (test idle (testloader idle) n) = (0, 0)" for n
    by (simp add: test_def idle_def Let_def new_meter_def update_def avg_def)
  have o: "r_out ten_run = []" by (simp add: ten_run_def initial_run_def)
  have rn: "r_net ten_run = ten_net" by (simp add: ten_run_def initial_run_def)
  have W: "map2 (\<lambda>row s. map (\<lambda>w. tdiv32 w s) row) (cells (r_net ten_run) 0) (map f32 ss) =
      map (\<lambda>i. [tdiv32 (Fin 1) (f32 (((1 / real_of_int r) powr (real i / 9)) powr p))]) [0..<10]"
    by (rule nth_equalityI) (simp_all add: rn ten_net_def ss_def)
  have m: "main idle a ten_run = evaluate_only idle a ten_run"
    by (simp add: main_def resume_run_def a_def default_args_def)
  show ?thesis
    unfolding a_def [symmetric] m
    by (simp add: evaluate_only_run [OF wf key cf len refl refl] t o W) (simp add: rn ten_net_def)
qed

text \<open>
  Claim C6, as the claim states it, fails: the operation of lines 242 to 248 changes the
  weight matrix it was given. In the run \<open>--evaluate --imbalance 2 --RS 1\<close> on the
  ten-row network the last row of the classifier tensor \<open>module.fc.weight\<close> is
  \<open>[1]\<close> before and \<open>[2]\<close> after: line 248 copies the quotient into the very tensor
  that line 235 read.
\<close>

theorem rescale_mutates_counterexample:
  "\<not> isl (main idle (default_args\<lparr>evaluate := True, imbalance := 2, RS := 1\<rparr>) ten_run) \<and>
   cells (r_net ten_run) 0 ! 9 = [Fin 1] \<and>
   cells (r_net (final_state (main idle (default_args\<lparr>evaluate := True, imbalance := 2, RS := 1\<rparr>) ten_run))) 0 ! 9 =
     [Fin 2]"
  by (simp add: ten_run_evaluate final_state_def f32_def f32_tiny_def f32_huge_def)
    (simp add: ten_run_def initial_run_def ten_net_def)

text \<open>
  Claim C6, amended. The quotient of lines 242 to 245 is a new tensor: computing it
  leaves the input tensor and every tensor allocated before unchanged, and the network's
  table and mode as they were; it has the shape of the input when the weight matrix has
  one row per count; and it depends on the contents of the weight matrix, the counts and
  the strength only, so that computing it again, in any network whose weight tensor has
  the same contents, gives an equal tensor. Lines 247 and 248 then copy the quotient
  into the input tensor in place: after them the network's weight tensor holds the
  rescaled values.
\<close>

theorem rescale_then_load:
  assumes "rescale n W counts p = Inr (new_W, n')" and "W < next_addr n"
  shows "cells n' W = cells n W \<and>
         (\<forall>a<next_addr n. cells n' a = cells n a) \<and>
         new_W = next_addr n \<and> new_W \<noteq> W \<and> named n' = named n \<and> training n' = training n \<and>
         (length (cells n W) = length counts \<longrightarrow> shape (cells n' new_W) = shape (cells n W)) \<and>
         (\<forall>m V. cells m V = cells n W \<longrightarrow>
            (\<exists>new_V m'. rescale m V counts p = Inr (new_V, m') \<and> cells m' new_V = cells n' new_W)) \<and>
         (distinct (map fst (named n)) \<and> map_of (named n) k = Some W \<and>
          length (cells n W) = length counts \<longrightarrow>
            load_state_dict n' (AList.update k new_W (state_dict n)) =
              Inr (n'\<lparr>cells := (cells n')(W := cells n' new_W)\<rparr>))"
proof -
  from rescale_result [OF assms(1)] obtain ss t where
    sf: "scale_factors counts p = Inr ss" and dr: "div_rows32 (cells n W) (map f32 ss) = Inr t"
    and nw: "new_W = next_addr n"
    and n': "n' = n\<lparr>cells := (cells n)(next_addr n := t), next_addr := Suc (next_addr n)\<rparr>"
    by blast
  have ls: "length (map f32 ss) = length counts" using scale_factors_length [OF sf] by simp
  have same: "cells n' W = cells n W" using assms(2) by (simp add: n')
  have new: "cells n' new_W = t" by (simp add: n' nw)
  have ne: "new_W \<noteq> W" using assms(2) nw by simp
  have sh: "shape (cells n' new_W) = shape (cells n W)" if "length (cells n W) = length counts"
    using div_rows32_shape [OF dr] that ls by (simp add: new)
  show ?thesis
  proof (intro conjI allI impI)
    show "cells n' W = cells n W" by (rule same)
    show "cells n' a = cells n a" if "a < next_addr n" for a using that by (simp add: n')
    show "new_W = next_addr n" by (rule nw)
    show "new_W \<noteq> W" by (rule ne)
    show "named n' = named n" "training n' = training n" by (simp_all add: n')
    show "shape (cells n' new_W) = shape (cells n W)" if "length (cells n W) = length counts"
      by (rule sh [OF that])
    show "\<exists>new_V m'. rescale m V counts p = Inr (new_V, m') \<and> cells m' new_V = cells n' new_W"
      if "cells m V = cells n W" for m V
      by (simp add: rescale_def sf and_then_def that dr alloc_def new)
    show "load_state_dict n' (AList.update k new_W (state_dict n)) =
              Inr (n'\<lparr>cells := (cells n')(W := cells n' new_W)\<rparr>)"
      if h: "distinct (map fst (named n)) \<and> map_of (named n) k = Some W \<and>
          length (cells n W) = length counts"
    proof -
      have nm: "named n' = named n" by (simp add: n')
      have "load_state_dict n' (AList.update k new_W (named n')) =
              Inr (n'\<lparr>cells := (cells n')(W := cells n' new_W)\<rparr>)"
        using h ne sh same by (intro load_rescaled) (simp_all add: nm)
      then show ?thesis by (simp add: state_dict_def nm)
    qed
  qed
qed

theorem rescale_then_load_witness:
  "\<exists>counts new_W n'. num_sample 10 2 = Inr counts \<and>
     rescale ten_net 0 counts 1 = Inr (new_W, n') \<and> new_W = 1 \<and>
     cells n' 0 = cells ten_net 0 \<and> cells n' new_W ! 9 = [Fin 2] \<and>
     shape (cells n' new_W) = shape (cells ten_net 0) \<and>
     load_state_dict n' (AList.update ''module.fc.weight'' new_W (state_dict ten_net)) =
       Inr (n'\<lparr>cells := (cells n')(0 := cells n' new_W)\<rparr>)"
proof -
  define counts where
    "counts = map (\<lambda>i. 50000 / real 10 * (1 / real_of_int 2) powr (real i / real (10 - 1))) [0..<10]"
  define t where "t = map2 (\<lambda>row s. map (\<lambda>w. tdiv32 w s) row) (cells ten_net 0)
            (map f32 (map (\<lambda>i. ((1 / real_of_int 2) powr (real i / real (10 - 1))) powr 1) [0..<10]))"
  have l: "length (cells ten_net 0) = 10" by (simp add: ten_net_def)
  have ns: "num_sample 10 2 = Inr counts"
    unfolding counts_def by (rule profile_closed(1)) simp_all
  have r: "rescale ten_net 0 counts 1 = Inr (1, ten_net\<lparr>cells := (cells ten_net)(1 := t), next_addr := 2\<rparr>)"
  proof -
    have c: "(2::nat) \<le> 10" and i: "(1::int) \<le> 2" by simp_all
    have "rescale ten_net 0 counts 1 = Inr (alloc t ten_net)"
      unfolding counts_def t_def by (rule rescale_profile [OF c i l])
    moreover have "next_addr ten_net = 1" by (simp add: ten_net_def)
    ultimately show ?thesis by (simp add: alloc_def)
  qed
  have lc: "length counts = 10" by (simp add: counts_def)
  have t9: "t ! 9 = [Fin 2]"
    by (simp add: t_def ten_net_def f32_def f32_tiny_def f32_huge_def del: upt_Suc)
  have w: "0 < next_addr ten_net" by (simp add: ten_net_def)
  have h: "distinct (map fst (named ten_net)) \<and> map_of (named ten_net) ''module.fc.weight'' = Some 0 \<and>
          length (cells ten_net 0) = length counts"
    by (simp add: ten_net_def lc)
  have na: "next_addr ten_net = 1" by (simp add: ten_net_def)
  from rescale_then_load [OF r w, of "''module.fc.weight''"] h l lc
  have "cells (ten_net\<lparr>cells := (cells ten_net)(1 := t), next_addr := 2\<rparr>) 0 = cells ten_net 0 \<and>
     shape (cells (ten_net\<lparr>cells := (cells ten_net)(1 := t), next_addr := 2\<rparr>) 1) = shape (cells ten_net 0) \<and>
     load_state_dict (ten_net\<lparr>cells := (cells ten_net)(1 := t), next_addr := 2\<rparr>)
         (AList.update ''module.fc.weight'' 1 (state_dict ten_net)) =
       Inr (ten_net\<lparr>cells := (cells ten_net)(1 := t), next_addr := 2\<rparr>
          \<lparr>cells := (cells (ten_net\<lparr>cells := (cells ten_net)(1 := t), next_addr := 2\<rparr>))
             (0 := cells (ten_net\<lparr>cells := (cells ten_net)(1 := t), next_addr := 2\<rparr>) 1)\<rparr>)"
    by (simp add: na)
  then show ?thesis using ns r t9 by simp
qed







section \<open>Resuming from a checkpoint (lines 214 to 225)\<close>

text \<open>
  Loading a saved state dictionary: \<open>torch.load\<close> creates the saved tensors as new
  objects and \<open>load_state_dict\<close> copies them into the module's tensors. When the saved
  dictionary has the module's names and shapes, the load succeeds and the module then
  holds exactly the saved contents. Along the epochs of a run \<open>best_acc\<close> never
  decreases.
\<close>

lemma torch_load_props:
  "torch_load sdv n = (sd, n') \<Longrightarrow>
     map fst sd = map fst sdv \<and> map (cells n') (map snd sd) = map snd sdv \<and>
     (\<forall>a<next_addr n. cells n' a = cells n a) \<and> named n' = named n \<and>
     training n' = training n \<and> next_addr n \<le> next_addr n' \<and>
     list_all (\<lambda>a. next_addr n \<le> a \<and> a < next_addr n') (map snd sd)"
proof (induction sdv arbitrary: n sd n')
  case Nil
  then show ?case by simp
next
  case (Cons e sdv)
  obtain name t where e: "e = (name, t)" by (cases e)
  define n1 where "n1 = n\<lparr>cells := (cells n)(next_addr n := t), next_addr := Suc (next_addr n)\<rparr>"
  obtain sd2 n2 where r: "torch_load sdv n1 = (sd2, n2)" by (cases "torch_load sdv n1")
  from Cons.prems have sd: "sd = (name, next_addr n) # sd2" and n': "n' = n2"
    by (simp_all add: e alloc_def n1_def [symmetric] r)
  note ih = Cons.IH [OF r]
  have keep: "cells n2 (next_addr n) = t" using ih by (simp add: n1_def)
  have below: "cells n2 a = cells n a" if "a < next_addr n" for a
    using ih that by (simp add: n1_def)
  have rng: "list_all (\<lambda>a. next_addr n \<le> a \<and> a < next_addr n2) (map snd sd2)"
    using ih by (auto simp: list_all_iff n1_def)
  show ?case
    using ih keep below rng by (simp add: sd n' e n1_def)
qed

lemma map_of_inj:
  assumes "distinct (map snd own)" and "map_of own x = Some d" and "map_of own y = Some d"
  shows "x = y"
proof -
  have "(x, d) \<in> set own" "(y, d) \<in> set own" using assms(2,3) by (auto dest: map_of_SomeD)
  moreover have "inj_on snd (set own)" using assms(1) by (simp add: distinct_map)
  ultimately show ?thesis using inj_onD [of snd "set own" "(x, d)" "(y, d)"] by simp
qed

lemma copy_entries_fresh:
  assumes "distinct (map snd own)" and "distinct (map fst sd)"
    and "\<And>name src. (name, src) \<in> set sd \<Longrightarrow>
           \<exists>dst. map_of own name = Some dst \<and> shape (c src) = shape (c dst)"
    and "set (map snd sd) \<inter> set (map snd own) = {}"
  shows "\<exists>c'. copy_entries own sd c = Inr c' \<and>
           (\<forall>name src dst. (name, src) \<in> set sd \<longrightarrow> map_of own name = Some dst \<longrightarrow> c' dst = c src) \<and>
           (\<forall>a. a \<notin> set (map snd own) \<longrightarrow> c' a = c a) \<and>
           (\<forall>name dst. map_of own name = Some dst \<longrightarrow> name \<notin> set (map fst sd) \<longrightarrow> c' dst = c dst)"
  using assms(2,3,4)
proof (induction sd arbitrary: c)
  case Nil
  show ?case by simp
next
  case (Cons e sd)
  obtain name src where e: "e = (name, src)" by (cases e)
  from Cons.prems(2) [of name src] obtain dst where
    dst: "map_of own name = Some dst" and sh: "shape (c src) = shape (c dst)" by (auto simp: e)
  have dmem: "dst \<in> set (map snd own)" using dst by (force dest: map_of_SomeD)
  let ?c = "c(dst := c src)"
  have d2: "distinct (map fst sd)" and nin: "name \<notin> set (map fst sd)"
    using Cons.prems(1) by (simp_all add: e)
  have disj: "set (map snd sd) \<inter> set (map snd own) = {}" and srcfresh: "src \<notin> set (map snd own)"
    using Cons.prems(3) by (auto simp: e)
  have pre: "\<exists>dst'. map_of own name' = Some dst' \<and> shape (?c src') = shape (?c dst')"
    if m: "(name', src') \<in> set sd" for name' src'
  proof -
    from Cons.prems(2) [of name' src'] m obtain dst' where
      d': "map_of own name' = Some dst'" "shape (c src') = shape (c dst')" by auto
    have "name' \<noteq> name" using m nin by force
    then have "dst' \<noteq> dst" using map_of_inj [OF assms(1) d'(1)] dst by auto
    moreover have "src' \<noteq> dst" using m disj dmem by force
    ultimately show ?thesis using d' by auto
  qed
  from Cons.IH [OF d2 pre disj] obtain c' where
    r: "copy_entries own sd ?c = Inr c'"
    and a: "\<And>name' src' dst'. (name', src') \<in> set sd \<Longrightarrow> map_of own name' = Some dst' \<Longrightarrow> c' dst' = ?c src'"
    and b: "\<And>a. a \<notin> set (map snd own) \<Longrightarrow> c' a = ?c a"
    and k: "\<And>name' dst'. map_of own name' = Some dst' \<Longrightarrow> name' \<notin> set (map fst sd) \<Longrightarrow> c' dst' = ?c dst'"
    by blast
  have run: "copy_entries own (e # sd) c = Inr c'" using dst sh r by (simp add: e)
  have A: "c' dst' = c src'" if m: "(name', src') \<in> set (e # sd)" and d': "map_of own name' = Some dst'"
    for name' src' dst'
  proof (cases "(name', src') = (name, src)")
    case True
    then have "dst' = dst" using d' dst by simp
    then show ?thesis using k [OF dst nin] True by simp
  next
    case False
    then have m': "(name', src') \<in> set sd" using m by (auto simp: e)
    have "src' \<noteq> dst" using m' disj dmem by force
    then show ?thesis using a [OF m' d'] by simp
  qed
  have B: "c' a = c a" if "a \<notin> set (map snd own)" for a
    using b [OF that] that dmem by auto
  have K: "c' dst' = c dst'" if d': "map_of own name' = Some dst'" and "name' \<notin> set (map fst (e # sd))"
    for name' dst'
  proof -
    have "name' \<noteq> name" "name' \<notin> set (map fst sd)" using that(2) by (simp_all add: e)
    then have "dst' \<noteq> dst" using map_of_inj [OF assms(1) d'] dst by auto
    then show ?thesis using k [OF d' \<open>name' \<notin> set (map fst sd)\<close>] by simp
  qed
  show ?case using run A B K by blast
qed

lemma load_saved:
  assumes wf: "wf_net n" and names: "map fst sdv = map fst (named n)"
    and shapes: "map (shape \<circ> snd) sdv = map (\<lambda>(name, a). shape (cells n a)) (named n)"
    and tl: "torch_load sdv n = (sd, n1)"
  shows "\<exists>n'. load_state_dict n1 sd = Inr n' \<and> snapshot n' (state_dict n') = sdv \<and>
           named n' = named n \<and> training n' = training n"
proof -
  note tp = torch_load_props [OF tl]
  let ?own = "named n"
  have own: "named n1 = ?own" using tp by simp
  have dn: "distinct (map fst ?own)" and da: "distinct (map snd ?own)"
    and lt: "\<And>a. a \<in> set (map snd ?own) \<Longrightarrow> a < next_addr n"
    using wf by (auto simp: wf_net_def list_all_iff)
  have fsd: "map fst sd = map fst ?own" using tp names by simp
  have len: "length sd = length ?own" "length sdv = length ?own"
    using fsd names by (metis length_map)+
  have dsd: "distinct (map fst sd)" using dn fsd by simp
  have fresh: "\<And>a. a \<in> set (map snd sd) \<Longrightarrow> next_addr n \<le> a"
    using tp by (auto simp: list_all_iff)
  have disj: "set (map snd sd) \<inter> set (map snd ?own) = {}"
    using fresh lt by fastforce
  have at: "fst (sd ! i) = fst (?own ! i) \<and> map_of ?own (fst (sd ! i)) = Some (snd (?own ! i)) \<and>
            cells n1 (snd (sd ! i)) = snd (sdv ! i) \<and> fst (sdv ! i) = fst (?own ! i) \<and>
            cells n1 (snd (?own ! i)) = cells n (snd (?own ! i)) \<and>
            shape (snd (sdv ! i)) = shape (cells n (snd (?own ! i)))"
    if i: "i < length ?own" for i
  proof -
    have 1: "fst (sd ! i) = fst (?own ! i)"
      using fsd i len by (metis nth_map)
    have "?own ! i \<in> set ?own" using i by simp
    then have 2: "map_of ?own (fst (?own ! i)) = Some (snd (?own ! i))"
      using dn by (intro map_of_is_SomeI) simp_all
    have "map (cells n1) (map snd sd) ! i = map snd sdv ! i" using tp by simp
    then have 3: "cells n1 (snd (sd ! i)) = snd (sdv ! i)" using i len by simp
    have 4: "fst (sdv ! i) = fst (?own ! i)" using names i len by (metis nth_map)
    have "snd (?own ! i) \<in> set (map snd ?own)" using i by simp
    then have 5: "cells n1 (snd (?own ! i)) = cells n (snd (?own ! i))" using tp lt by simp
    have "map (shape \<circ> snd) sdv ! i = map (\<lambda>(name, a). shape (cells n a)) ?own ! i"
      using shapes by simp
    then have 6: "shape (snd (sdv ! i)) = shape (cells n (snd (?own ! i)))"
      using i len by (simp add: split_def)
    show ?thesis using 1 2 3 4 5 6 by simp
  qed
  have pre: "\<exists>dst. map_of ?own name = Some dst \<and> shape (cells n1 src) = shape (cells n1 dst)"
    if "(name, src) \<in> set sd" for name src
  proof -
    from that obtain i where i: "i < length sd" "sd ! i = (name, src)" by (auto simp: in_set_conv_nth)
    then show ?thesis using at [of i] len by auto
  qed
  from copy_entries_fresh [OF da dsd pre disj] obtain c' where
    r: "copy_entries ?own sd (cells n1) = Inr c'"
    and a: "\<And>name src dst. (name, src) \<in> set sd \<Longrightarrow> map_of ?own name = Some dst \<Longrightarrow> c' dst = cells n1 src"
    by blast
  have chk: "list_all (\<lambda>name. name \<in> set (map fst sd)) (map fst ?own)"
    by (simp add: fsd list_all_iff)
  have ld: "load_state_dict n1 sd = Inr (n1\<lparr>cells := c'\<rparr>)"
    using r chk by (simp add: load_state_dict_def own)
  have "map (\<lambda>(name, a). (name, c' a)) ?own = sdv"
  proof (rule nth_equalityI)
    show "length (map (\<lambda>(name, a). (name, c' a)) ?own) = length sdv" using len by simp
    fix i assume "i < length (map (\<lambda>(name, a). (name, c' a)) ?own)"
    then have i: "i < length ?own" by simp
    have "sd ! i \<in> set sd" using i len by simp
    then have "(fst (sd ! i), snd (sd ! i)) \<in> set sd" by simp
    note m = this
    note mo = at [OF i, THEN conjunct2, THEN conjunct1]
    note ce = at [OF i, THEN conjunct2, THEN conjunct2, THEN conjunct1]
    have "c' (snd (?own ! i)) = snd (sdv ! i)" using a [OF m mo] ce by simp
    then show "map (\<lambda>(name, a). (name, c' a)) ?own ! i = sdv ! i"
      using i at [OF i] by (simp add: split_def prod_eq_iff)
  qed
  then have "snapshot (n1\<lparr>cells := c'\<rparr>) (state_dict (n1\<lparr>cells := c'\<rparr>)) = sdv"
    by (simp add: snapshot_def state_dict_def own)
  then show ?thesis using ld own tp by auto
qed

lemma epoch_body_best:
  "epoch_body P a epoch s = Inr s' \<Longrightarrow> r_best_acc s \<le> r_best_acc s'"
  by (auto simp: epoch_body_def adjust_learning_rate_def checkpointing_def evaluating_def
      py_max2_def Let_def split_def split: sum.splits if_splits)

lemma epoch_loop_best:
  "epoch_loop P a es s = Inr s' \<Longrightarrow> r_best_acc s \<le> r_best_acc s'"
proof (induction es arbitrary: s)
  case Nil
  then show ?case by simp
next
  case (Cons e es)
  then obtain s1 where b: "epoch_body P a e s = Inr s1" and l: "epoch_loop P a es s1 = Inr s'"
    by (auto split: sum.splits)
  show ?case using Cons.IH [OF l] epoch_body_best [OF b] by simp
qed

text \<open>
  Claim C4. The checkpoint written in epoch \<open>epoch\<close> records \<open>epoch + 1\<close>, the
  contents of the network, the optimizer and the best accuracy. Resuming from a
  checkpoint file that fits the network returns: the start epoch is the recorded one,
  the saving epoch's index plus 1, and the epoch loop of \<open>main\<close> runs from it; the
  network holds the saved contents, the optimizer is the saved one and \<open>best_acc\<close> is
  the saved best accuracy; and after any further epochs \<open>best_acc\<close> is at least the
  saved value, whatever the test accuracies were. In particular a checkpoint saved in
  epoch 100 with best accuracy 72.3 resumes at epoch 101 with a best accuracy that stays
  at or above 72.3.
\<close>

theorem resume_contract:
  assumes "resume a \<noteq> []" and "r_files s (resume a) = Some ck"
    and "wf_net (r_net s)" and "fits ck (r_net s) (r_opt s)"
  shows "(\<exists>s1. resume_run a s = Inr (ck_epoch ck, a\<lparr>checkpoint := dirname (resume a)\<rparr>, s1) \<and>
            r_best_acc s1 = ck_best_acc ck \<and> r_opt s1 = ck_optimizer ck \<and>
            snapshot (r_net s1) (state_dict (r_net s1)) = ck_state_dict ck \<and>
            (\<not> evaluate a \<longrightarrow>
               main P a s =
                 (case epoch_loop P (a\<lparr>checkpoint := dirname (resume a)\<rparr>)
                         [ck_epoch ck..epochs a - 1] s1 of
                    Inl err \<Rightarrow> Inl err
                  | Inr s2 \<Rightarrow>
                      Inr (s2\<lparr>r_out := r_out s2 @
                             [Print_text ''Best acc:'', Print_best (r_best_acc s2)]\<rparr>))) \<and>
            (\<forall>a' es s2. epoch_loop P a' es s1 = Inr s2 \<longrightarrow> ck_best_acc ck \<le> r_best_acc s2)) \<and>
         r_files (snd (checkpointing a0 epoch test_acc s0))
             (path_join (checkpoint a0) ''checkpoint.pth.tar'') =
           Some \<lparr>ck_epoch = epoch + 1,
                 ck_state_dict = snapshot (r_net s0) (state_dict (r_net s0)),
                 ck_acc = test_acc, ck_best_acc = max test_acc (r_best_acc s0),
                 ck_optimizer = r_opt s0\<rparr>"
proof (rule conjI)
  define s1 where "s1 = s\<lparr>r_out := r_out s @
                   [Print_text ''==> Resuming from checkpoint..'', Print_text (resume a)]\<rparr>"
  obtain sd n1 where tl: "torch_load (ck_state_dict ck) (r_net s) = (sd, n1)"
    by (cases "torch_load (ck_state_dict ck) (r_net s)")
  from assms(4) have f: "map fst (ck_state_dict ck) = map fst (named (r_net s))"
    "map (shape \<circ> snd) (ck_state_dict ck) = map (\<lambda>(name, a). shape (cells (r_net s) a)) (named (r_net s))"
    "length (param_groups (ck_optimizer ck)) = length (param_groups (r_opt s))"
    by (simp_all add: fits_def)
  from load_saved [OF assms(3) f(1,2) tl] obtain n2 where
    ld: "load_state_dict n1 sd = Inr n2"
    and sn: "snapshot n2 (state_dict n2) = ck_state_dict ck" by blast
  define s3 where "s3 = s1\<lparr>r_net := n2, r_best_acc := ck_best_acc ck, r_opt := ck_optimizer ck\<rparr>"
  have rr: "resume_run a s = Inr (ck_epoch ck, a\<lparr>checkpoint := dirname (resume a)\<rparr>, s3)"
    using assms(1,2) tl ld f(3)
    by (simp add: resume_run_def Let_def s1_def s3_def)
  have mono: "ck_best_acc ck \<le> r_best_acc s2" if "epoch_loop P a' es s3 = Inr s2" for a' es s2
    using epoch_loop_best [OF that] by (simp add: s3_def)
  have mn: "main P a s =
                 (case epoch_loop P (a\<lparr>checkpoint := dirname (resume a)\<rparr>)
                         [ck_epoch ck..epochs a - 1] s3 of
                    Inl err \<Rightarrow> Inl err
                  | Inr s2 \<Rightarrow>
                      Inr (s2\<lparr>r_out := r_out s2 @
                             [Print_text ''Best acc:'', Print_best (r_best_acc s2)]\<rparr>))"
    if "\<not> evaluate a"
    using that by (simp add: main_def rr)
  show "\<exists>s1. resume_run a s = Inr (ck_epoch ck, a\<lparr>checkpoint := dirname (resume a)\<rparr>, s1) \<and>
            r_best_acc s1 = ck_best_acc ck \<and> r_opt s1 = ck_optimizer ck \<and>
            snapshot (r_net s1) (state_dict (r_net s1)) = ck_state_dict ck \<and>
            (\<not> evaluate a \<longrightarrow>
               main P a s =
                 (case epoch_loop P (a\<lparr>checkpoint := dirname (resume a)\<rparr>)
                         [ck_epoch ck..epochs a - 1] s1 of
                    Inl err \<Rightarrow> Inl err
                  | Inr s2 \<Rightarrow>
                      Inr (s2\<lparr>r_out := r_out s2 @
                             [Print_text ''Best acc:'', Print_best (r_best_acc s2)]\<rparr>))) \<and>
            (\<forall>a' es s2. epoch_loop P a' es s1 = Inr s2 \<longrightarrow> ck_best_acc ck \<le> r_best_acc s2)"
  proof (intro exI [of _ s3] conjI impI allI)
    show "resume_run a s = Inr (ck_epoch ck, a\<lparr>checkpoint := dirname (resume a)\<rparr>, s3)" by (rule rr)
    show "r_best_acc s3 = ck_best_acc ck" "r_opt s3 = ck_optimizer ck" by (simp_all add: s3_def)
    show "snapshot (r_net s3) (state_dict (r_net s3)) = ck_state_dict ck" using sn by (simp add: s3_def)
    show "main P a s =
                 (case epoch_loop P (a\<lparr>checkpoint := dirname (resume a)\<rparr>)
                         [ck_epoch ck..epochs a - 1] s3 of
                    Inl err \<Rightarrow> Inl err
                  | Inr s2 \<Rightarrow>
                      Inr (s2\<lparr>r_out := r_out s2 @
                             [Print_text ''Best acc:'', Print_best (r_best_acc s2)]\<rparr>))"
      if "\<not> evaluate a" using that by (rule mn)
    show "ck_best_acc ck \<le> r_best_acc s2" if "epoch_loop P a' es s3 = Inr s2" for a' es s2
      using that by (rule mono)
  qed
next
  show "r_files (snd (checkpointing a0 epoch test_acc s0))
             (path_join (checkpoint a0) ''checkpoint.pth.tar'') =
           Some \<lparr>ck_epoch = epoch + 1,
                 ck_state_dict = snapshot (r_net s0) (state_dict (r_net s0)),
                 ck_acc = test_acc, ck_best_acc = max test_acc (r_best_acc s0),
                 ck_optimizer = r_opt s0\<rparr>"
    by (simp add: checkpointing_def save_checkpoint_def Let_def py_max2_def max_def)
qed

theorem resume_contract_witness:
  "\<exists>s1 a1. resume_run (default_args\<lparr>resume := ''checkpoints/checkpoint.pth.tar''\<rparr>)
              (snd (checkpointing default_args 100 (723 / 10) ten_run)) = Inr (101, a1, s1) \<and>
     r_best_acc s1 = 723 / 10 \<and>
     (\<forall>es s2. epoch_loop idle default_args es s1 = Inr s2 \<longrightarrow> 723 / 10 \<le> r_best_acc s2)"
proof -
  define a where "a = default_args\<lparr>resume := ''checkpoints/checkpoint.pth.tar''\<rparr>"
  define s where "s = snd (checkpointing default_args 100 (723 / 10) ten_run)"
  define ck :: "(unit, unit) checkpoint_record" where
    "ck = \<lparr>ck_epoch = 100 + 1,
           ck_state_dict = snapshot (r_net ten_run) (state_dict (r_net ten_run)),
           ck_acc = 723 / 10, ck_best_acc = max (723 / 10) (r_best_acc ten_run),
           ck_optimizer = r_opt ten_run\<rparr>"
  have p: "path_join (checkpoint default_args) ''checkpoint.pth.tar'' = resume a"
    by (simp add: a_def default_args_def path_join_def)
  have 1: "resume a \<noteq> []" by (simp add: a_def)
  have 2: "r_files s (resume a) = Some ck"
    unfolding s_def ck_def p [symmetric]
    by (simp add: checkpointing_def save_checkpoint_def Let_def py_max2_def max_def)
  have n: "r_net s = r_net ten_run" "r_opt s = r_opt ten_run"
    by (simp_all add: s_def checkpointing_def Let_def)
  have 3: "wf_net (r_net s)"
    by (simp add: n ten_run_def initial_run_def ten_net_def wf_net_def)
  have 4: "fits ck (r_net s) (r_opt s)"
    by (simp add: n ck_def fits_def ten_run_def initial_run_def ten_net_def snapshot_def state_dict_def)
  have e: "ck_epoch ck = 101" "ck_best_acc ck = 723 / 10"
    by (simp_all add: ck_def ten_run_def initial_run_def)
  from resume_contract [OF 1 2 3 4, THEN conjunct1, of idle] show ?thesis
    unfolding e a_def [symmetric] s_def [symmetric] by blast
qed

end
